theory Spec2Isabelle
  imports Complex_Main
begin

section \<open>Python primitives used by generator.py\<close>

text \<open>
  The exceptions that the modelled part of the program can raise. \<open>ValueError\<close> comes from
  \<open>range\<close> with step 0, from \<open>random.randint\<close> on an empty interval and from
  \<open>time.sleep\<close> with a negative argument; \<open>StoreError\<close> stands for any exception that
  pyodbc raises from \<open>cursor.execute\<close> or \<open>pyodbc.connect\<close>.
\<close>

datatype error = ValueError | IndexError | ZeroDivisionError | StoreError | KeyboardInterrupt

text \<open>\<open>range(start, stop, step)\<close> as the list of the values it yields, for a non-zero step.\<close>

function range_list :: "int \<Rightarrow> int \<Rightarrow> int \<Rightarrow> int list" where
  "range_list i stop step =
     (if 0 < step \<and> i < stop then i # range_list (i + step) stop step
      else if step < 0 \<and> stop < i then i # range_list (i + step) stop step
      else [])"
  by pat_completeness auto
termination
  by (relation "measure (\<lambda>(i, stop, step). nat (if 0 < step then stop - i else i - stop))") auto

declare range_list.simps [simp del]

text \<open>\<open>range\<close> raises ValueError when the step is zero.\<close>

definition py_range :: "int \<Rightarrow> int \<Rightarrow> int \<Rightarrow> error + int list" where
  "py_range start stop step =
     (if step = 0 then Inl ValueError else Inr (range_list start stop step))"

text \<open>
  The slice \<open>xs[i:j]\<close>: a negative bound counts from the end, and both bounds are clamped
  to the list, so a slice never raises.
\<close>

definition clamp_index :: "int \<Rightarrow> int \<Rightarrow> int" where
  "clamp_index n i = (if i < 0 then max (i + n) 0 else min i n)"

definition py_slice :: "'a list \<Rightarrow> int \<Rightarrow> int \<Rightarrow> 'a list" where
  "py_slice xs i j =
     (let n = int (length xs); a = clamp_index n i; b = clamp_index n j
      in take (nat (b - a)) (drop (nat a) xs))"

text \<open>\<open>sep.join(parts)\<close>.\<close>

fun join :: "string \<Rightarrow> string list \<Rightarrow> string" where
  "join sep [] = []"
| "join sep [x] = x"
| "join sep (x # y # ys) = x @ sep @ join sep (y # ys)"

text \<open>\<open>str(n)\<close> for an integer, as an f-string renders it.\<close>

definition digit_char :: "nat \<Rightarrow> char" where
  "digit_char d = ''0123456789'' ! d"

function str_nat :: "nat \<Rightarrow> string" where
  "str_nat n = (if n < 10 then [digit_char n] else str_nat (n div 10) @ [digit_char (n mod 10)])"
  by pat_completeness auto
termination
  by (relation "measure id") auto

declare str_nat.simps [simp del]

definition str_int :: "int \<Rightarrow> string" where
  "str_int i = (if i < 0 then ''-'' @ str_nat (nat (- i)) else str_nat (nat i))"

section \<open>The store session\<close>

text \<open>
  The pyodbc connection, together with the console, as one state. The connection is opened
  without an \<open>autocommit\<close> argument, so it is transactional: a statement that
  \<open>cursor.execute\<close> accepts joins the open transaction (\<open>pending\<close>), \<open>conn.commit()\<close>
  makes the open transaction durable (\<open>committed\<close>), \<open>conn.rollback()\<close> discards it.
  \<open>attempted\<close> records every statement handed to \<open>cursor.execute\<close>, accepted or not.
  \<open>opens\<close> and \<open>closes\<close> count the connections opened and the calls of \<open>conn.close()\<close>.
  Of the console only the progress lines are kept, each as the two numbers it prints.
\<close>

record world =
  opens :: nat
  committed :: "string list"
  pending :: "string list"
  attempted :: "string list"
  commits :: nat
  rollbacks :: nat
  cursors_closed :: nat
  closes :: nat
  progress :: "(int \<times> int) list"

text \<open>
  Whether the store rejects a statement is outside the program: \<open>fails n sql\<close> says whether
  the store raises on \<open>sql\<close> when \<open>n\<close> statements have been submitted before it.
  Commit, rollback and close are taken to succeed.
\<close>

type_synonym store_oracle = "nat \<Rightarrow> string \<Rightarrow> bool"

definition execute :: "store_oracle \<Rightarrow> string \<Rightarrow> world \<Rightarrow> (error + unit) \<times> world" where
  "execute fails sql w =
     (let w' = w\<lparr>attempted := attempted w @ [sql]\<rparr>
      in if fails (length (attempted w)) sql then (Inl StoreError, w')
         else (Inr (), w'\<lparr>pending := pending w' @ [sql]\<rparr>))"

definition commit :: "world \<Rightarrow> world" where
  "commit w = w\<lparr>committed := committed w @ pending w, pending := [], commits := Suc (commits w)\<rparr>"

definition rollback :: "world \<Rightarrow> world" where
  "rollback w = w\<lparr>pending := [], rollbacks := Suc (rollbacks w)\<rparr>"

definition cursor_close :: "world \<Rightarrow> world" where
  "cursor_close w = w\<lparr>cursors_closed := Suc (cursors_closed w)\<rparr>"

text \<open>Closing the connection drops whatever is still uncommitted.\<close>

definition close :: "world \<Rightarrow> world" where
  "close w = w\<lparr>pending := [], closes := Suc (closes w)\<rparr>"

section \<open>The chunked load\<close>

text \<open>
  The three functions \<open>batch_insert_customers\<close>, \<open>batch_insert_orders\<close> and
  \<open>batch_insert_payments\<close> have the same body and differ in the statement they build from
  a chunk, so the body is modelled once, over that rendering.

  \<open>insert_chunks\<close> is the body of the \<open>for i in range(0, total, chunk_size)\<close> loop, run
  over the indices the range yields: slice the chunk, build the statement, execute it (an
  exception leaves the loop), print a progress line when \<open>(i + chunk_size) % 5000 == 0\<close>.
\<close>

fun insert_chunks ::
  "store_oracle \<Rightarrow> ('r list \<Rightarrow> string) \<Rightarrow> int \<Rightarrow> 'r list \<Rightarrow> int list \<Rightarrow> world
     \<Rightarrow> (error + unit) \<times> world" where
  "insert_chunks fails render chunk_size rows [] w = (Inr (), w)"
| "insert_chunks fails render chunk_size rows (i # idxs) w =
     (let total = int (length rows);
          chunk = py_slice rows i (i + chunk_size);
          sql = render chunk
      in case execute fails sql w of
           (Inl e, w') \<Rightarrow> (Inl e, w')
         | (Inr _, w') \<Rightarrow>
             insert_chunks fails render chunk_size rows idxs
               (if (i + chunk_size) mod 5000 = 0
                then w'\<lparr>progress := progress w' @ [(min (i + chunk_size) total, total)]\<rparr>
                else w'))"

text \<open>
  The whole function: the loop, then one \<open>conn.commit()\<close>; on any exception
  \<open>conn.rollback()\<close> and re-raise; \<open>cursor.close()\<close> in every case.
\<close>

definition batch_insert ::
  "store_oracle \<Rightarrow> ('r list \<Rightarrow> string) \<Rightarrow> int \<Rightarrow> 'r list \<Rightarrow> world \<Rightarrow> (error + unit) \<times> world" where
  "batch_insert fails render chunk_size rows w =
     (let total = int (length rows)
      in case py_range 0 total chunk_size of
           Inl e \<Rightarrow> (Inl e, cursor_close (rollback w))
         | Inr idxs \<Rightarrow>
             (case insert_chunks fails render chunk_size rows idxs w of
                (Inl e, w') \<Rightarrow> (Inl e, cursor_close (rollback w'))
              | (Inr _, w') \<Rightarrow> (Inr (), cursor_close (commit w'))))"

text \<open>The chunks that the loop slices, in order.\<close>

definition chunks :: "'r list \<Rightarrow> int \<Rightarrow> 'r list list" where
  "chunks rows chunk_size =
     map (\<lambda>i. py_slice rows i (i + chunk_size)) (range_list 0 (int (length rows)) chunk_size)"

text \<open>A store that accepts every statement.\<close>

definition accept_all :: store_oracle where
  "accept_all n sql = False"

section \<open>Timestamps and amounts\<close>

text \<open>A \<open>datetime\<close> value, by its fields.\<close>

record datetime =
  year :: int
  month :: int
  day :: int
  hour :: int
  minute :: int
  second :: int
  microsecond :: int




text \<open>A field printed in decimal, zero-filled to a width.\<close>

definition zero_pad :: "nat \<Rightarrow> int \<Rightarrow> string" where
  "zero_pad width v = replicate (width - length (str_int v)) (CHR ''0'') @ str_int v"

text \<open>
  \<open>t.strftime('%Y-%m-%d %H:%M:%S')\<close>. The microsecond is not printed. Month, day, hour,
  minute and second are zero-filled to two digits. The year is printed by the C library,
  which on Linux (glibc) does not zero-fill \<open>%Y\<close>: the year 999 is printed as \<open>999\<close>.
\<close>

definition strftime :: "datetime \<Rightarrow> string" where
  "strftime t =
     str_int (year t) @ ''-'' @ zero_pad 2 (month t) @ ''-'' @ zero_pad 2 (day t) @ '' '' @
     zero_pad 2 (hour t) @ '':'' @ zero_pad 2 (minute t) @ '':'' @ zero_pad 2 (second t)"










text \<open>
  A payment amount is a float, and a float is a rational number; the model keeps that
  number. \<open>random.uniform(a, b)\<close> is \<open>a + (b - a) * random()\<close> with \<open>random()\<close> a
  53-bit fraction in \<open>[0, 1)\<close>; the rounding of the two floating-point operations is left
  out. \<open>round(x, 2)\<close> rounds the exact value of \<open>x\<close> to the nearest multiple of 0.01,
  ties to the even one, and returns the float nearest to that multiple, which the model
  identifies with the multiple itself.
\<close>

definition random_fraction :: "nat \<Rightarrow> rat" where
  "random_fraction raw = of_nat (raw mod 2 ^ 53) / 2 ^ 53"

definition uniform :: "rat \<Rightarrow> rat \<Rightarrow> nat \<Rightarrow> rat" where
  "uniform a b raw = a + (b - a) * random_fraction raw"

definition round_half_even :: "rat \<Rightarrow> int" where
  "round_half_even q =
     (let f = \<lfloor>q\<rfloor>; d = q - of_int f
      in if d < 1 / 2 then f else if 1 / 2 < d then f + 1 else if even f then f else f + 1)"

definition py_round2 :: "rat \<Rightarrow> rat" where
  "py_round2 x = of_int (round_half_even (x * 100)) / 100"

text \<open>
  An f-string prints a float by \<open>repr\<close>: the shortest decimal that reads back as the same
  float, with at least one fractional digit. For the float nearest to a multiple of 0.01
  and of magnitude below \<open>10^16\<close>, which is what \<open>round(x, 2)\<close> returns for an amount,
  that decimal is the multiple with a trailing zero of the hundredths dropped:
  \<open>10.0\<close>, \<open>10.5\<close>, \<open>10.25\<close>. \<open>str_float\<close> is meant on such values only.
\<close>

definition str_float :: "rat \<Rightarrow> string" where
  "str_float a =
     (let k = \<lfloor>\<bar>a\<bar> * 100\<rfloor>; whole = k div 100; tenths = nat (k mod 100 div 10);
          hundredths = nat (k mod 10)
      in (if a < 0 then ''-'' else []) @ str_int whole @ ''.'' @
         (if hundredths = 0 then [digit_char tenths]
          else [digit_char tenths, digit_char hundredths]))"

section \<open>The entity generators\<close>

text \<open>
  The rows are tuples, as in the source: a customer is \<open>(id, first_name, last_name)\<close>, an
  order \<open>(id, customer_id, order_date, status)\<close>, a payment
  \<open>(id, order_id, method, status, amount, created)\<close>.
\<close>

type_synonym customer = "int \<times> string \<times> string"
type_synonym order = "int \<times> int \<times> datetime \<times> string"
type_synonym payment = "int \<times> int \<times> string \<times> string \<times> rat \<times> datetime"

text \<open>
  The module's global identifier counters, and the state of the random sources as the
  stream of raw random numbers still to be drawn. All three counters start at 1.
\<close>

record globals =
  customer_id_counter :: int
  order_id_counter :: int
  payment_id_counter :: int
  rng :: "nat \<Rightarrow> nat"

definition initial_globals :: "(nat \<Rightarrow> nat) \<Rightarrow> globals" where
  "initial_globals g =
     \<lparr>customer_id_counter = 1, order_id_counter = 1, payment_id_counter = 1, rng = g\<rparr>"

definition draw :: "globals \<Rightarrow> nat \<times> globals" where
  "draw st = (rng st 0, st\<lparr>rng := (\<lambda>n. rng st (Suc n))\<rparr>)"

text \<open>
  \<open>random.randint(a, b)\<close> is \<open>randrange(a, b + 1)\<close>: \<open>a\<close> plus a random number below the
  width \<open>b + 1 - a\<close>, and ValueError when the width is not positive.
\<close>

definition randint :: "int \<Rightarrow> int \<Rightarrow> globals \<Rightarrow> (error + int) \<times> globals" where
  "randint a b st =
     (if 0 < b + 1 - a
      then (let (raw, st') = draw st in (Inr (a + int raw mod (b + 1 - a)), st'))
      else (Inl ValueError, st))"

text \<open>\<open>random.choice(seq)\<close>: the element at a random index; IndexError on an empty sequence.\<close>

definition choice :: "'a list \<Rightarrow> globals \<Rightarrow> (error + 'a) \<times> globals" where
  "choice seq st =
     (if seq = [] then (Inl IndexError, st)
      else (let (raw, st') = draw st in (Inr (seq ! (raw mod length seq)), st')))"

text \<open>
  What Faker returns for a raw random number is left open: the names, and the timestamp
  that \<open>date_time_between(start_date='-30d', end_date='now')\<close> picks.
\<close>

record faker =
  first_name :: "nat \<Rightarrow> string"
  last_name :: "nat \<Rightarrow> string"
  date_time_between :: "nat \<Rightarrow> datetime"

text \<open>
  \<open>generate_customers\<close>: \<open>for _ in range(count)\<close> runs \<open>count\<close> times, and not at all for
  a negative \<open>count\<close>. Each round reads the counter, builds the tuple, appends it and
  increments the counter.
\<close>

fun customers_loop :: "faker \<Rightarrow> nat \<Rightarrow> customer list \<Rightarrow> globals \<Rightarrow> customer list \<times> globals" where
  "customers_loop fk 0 customers st = (customers, st)"
| "customers_loop fk (Suc n) customers st =
     (let cid = customer_id_counter st;
          (r1, st1) = draw st;
          (r2, st2) = draw st1;
          customer = (cid, first_name fk r1, last_name fk r2)
      in customers_loop fk n (customers @ [customer])
           (st2\<lparr>customer_id_counter := customer_id_counter st2 + 1\<rparr>))"

definition generate_customers :: "faker \<Rightarrow> int \<Rightarrow> globals \<Rightarrow> customer list \<times> globals" where
  "generate_customers fk count st = customers_loop fk (nat count) [] st"

definition order_statuses :: "string list" where
  "order_statuses = [''pending'', ''processing'', ''shipped'', ''delivered'', ''cancelled'']"

fun orders_loop ::
  "faker \<Rightarrow> int \<Rightarrow> nat \<Rightarrow> order list \<Rightarrow> globals \<Rightarrow> (error + order list) \<times> globals" where
  "orders_loop fk max_customer_id 0 orders st = (Inr orders, st)"
| "orders_loop fk max_customer_id (Suc n) orders st =
     (let oid = order_id_counter st
      in case randint 1 max_customer_id st of
           (Inl e, st1) \<Rightarrow> (Inl e, st1)
         | (Inr cust, st1) \<Rightarrow>
             (let (r, st2) = draw st1
              in case choice order_statuses st2 of
                   (Inl e, st3) \<Rightarrow> (Inl e, st3)
                 | (Inr status, st3) \<Rightarrow>
                     orders_loop fk max_customer_id n
                       (orders @ [(oid, cust, date_time_between fk r, status)])
                       (st3\<lparr>order_id_counter := order_id_counter st3 + 1\<rparr>)))"

definition generate_orders ::
  "faker \<Rightarrow> int \<Rightarrow> int \<Rightarrow> globals \<Rightarrow> (error + order list) \<times> globals" where
  "generate_orders fk count max_customer_id st =
     orders_loop fk max_customer_id (nat count) [] st"

definition payment_methods :: "string list" where
  "payment_methods = [''credit_card'', ''debit_card'', ''paypal'', ''bank_transfer'', ''pix'']"

definition payment_statuses :: "string list" where
  "payment_statuses = [''pending'', ''completed'', ''failed'', ''refunded'']"

fun payments_loop ::
  "faker \<Rightarrow> int \<Rightarrow> nat \<Rightarrow> payment list \<Rightarrow> globals \<Rightarrow> (error + payment list) \<times> globals" where
  "payments_loop fk max_order_id 0 payments st = (Inr payments, st)"
| "payments_loop fk max_order_id (Suc n) payments st =
     (let pid = payment_id_counter st
      in case randint 1 max_order_id st of
           (Inl e, st1) \<Rightarrow> (Inl e, st1)
         | (Inr ord, st1) \<Rightarrow>
             (case choice payment_methods st1 of
                (Inl e, st2) \<Rightarrow> (Inl e, st2)
              | (Inr method, st2) \<Rightarrow>
                  (case choice payment_statuses st2 of
                     (Inl e, st3) \<Rightarrow> (Inl e, st3)
                   | (Inr status, st3) \<Rightarrow>
                       (let (r4, st4) = draw st3;
                            amount = py_round2 (uniform 10 5000 r4);
                            (r5, st5) = draw st4
                        in payments_loop fk max_order_id n
                             (payments @
                                [(pid, ord, method, status, amount, date_time_between fk r5)])
                             (st5\<lparr>payment_id_counter := payment_id_counter st5 + 1\<rparr>)))))"

definition generate_payments ::
  "faker \<Rightarrow> int \<Rightarrow> int \<Rightarrow> globals \<Rightarrow> (error + payment list) \<times> globals" where
  "generate_payments fk count max_order_id st =
     payments_loop fk max_order_id (nat count) [] st"

text \<open>
  The high-water mark of a kind is its counter less one, as \<open>run_generator\<close> computes it
  (\<open>customer_id_counter - 1\<close>) for the parent range and for the totals it prints.
\<close>

definition customer_high_water_mark :: "globals \<Rightarrow> int" where
  "customer_high_water_mark st = customer_id_counter st - 1"

definition order_high_water_mark :: "globals \<Rightarrow> int" where
  "order_high_water_mark st = order_id_counter st - 1"

definition payment_high_water_mark :: "globals \<Rightarrow> int" where
  "payment_high_water_mark st = payment_id_counter st - 1"

text \<open>
  A run of generator calls in any order. The identifiers that each call returns in its
  rows are collected per kind; a call that raises returns no rows, and the run goes on
  from the state it left.
\<close>

datatype call = GenerateCustomers int | GenerateOrders int int | GeneratePayments int int

record issued =
  customer_ids :: "int list"
  order_ids :: "int list"
  payment_ids :: "int list"

definition no_ids :: issued where
  "no_ids = \<lparr>customer_ids = [], order_ids = [], payment_ids = []\<rparr>"

fun run_call :: "faker \<Rightarrow> call \<Rightarrow> issued \<times> globals \<Rightarrow> issued \<times> globals" where
  "run_call fk (GenerateCustomers count) (ids, st) =
     (let (customers, st') = generate_customers fk count st
      in (ids\<lparr>customer_ids := customer_ids ids @ map fst customers\<rparr>, st'))"
| "run_call fk (GenerateOrders count max_customer_id) (ids, st) =
     (case generate_orders fk count max_customer_id st of
        (Inl e, st') \<Rightarrow> (ids, st')
      | (Inr orders, st') \<Rightarrow> (ids\<lparr>order_ids := order_ids ids @ map fst orders\<rparr>, st'))"
| "run_call fk (GeneratePayments count max_order_id) (ids, st) =
     (case generate_payments fk count max_order_id st of
        (Inl e, st') \<Rightarrow> (ids, st')
      | (Inr payments, st') \<Rightarrow> (ids\<lparr>payment_ids := payment_ids ids @ map fst payments\<rparr>, st'))"

definition run_calls :: "faker \<Rightarrow> call list \<Rightarrow> issued \<times> globals \<Rightarrow> issued \<times> globals" where
  "run_calls fk calls s = foldl (\<lambda>s c. run_call fk c s) s calls"

section \<open>The statements of the three loaders\<close>

definition quoted :: "string \<Rightarrow> string" where
  "quoted s = [CHR 0x27] @ s @ [CHR 0x27]"

definition customer_values :: "customer \<Rightarrow> string" where
  "customer_values c =
     (case c of (cid, fname, lname) \<Rightarrow>
        ''('' @ str_int cid @ '', '' @ quoted fname @ '', '' @ quoted lname @ '')'')"

definition customers_sql :: "customer list \<Rightarrow> string" where
  "customers_sql chunk =
     ''INSERT INTO customers (ID, FIRST_NAME, LAST_NAME) VALUES '' @
     join '', '' (map customer_values chunk)"

definition order_values :: "order \<Rightarrow> string" where
  "order_values ord =
     (case ord of (oid, cust, order_date, status) \<Rightarrow>
        ''('' @ str_int oid @ '', '' @ str_int cust @ '', '' @ quoted (strftime order_date) @
        '', '' @ quoted status @ '')'')"

definition orders_sql :: "order list \<Rightarrow> string" where
  "orders_sql chunk =
     ''INSERT INTO orders (ID, USER_ID, ORDER_DATE, STATUS) VALUES '' @
     join '', '' (map order_values chunk)"

definition payment_values :: "payment \<Rightarrow> string" where
  "payment_values p =
     (case p of (pid, ord, method, status, amount, created) \<Rightarrow>
        ''('' @ str_int pid @ '', '' @ str_int ord @ '', '' @ quoted method @ '', '' @
        quoted status @ '', '' @ str_float amount @ '', '' @ quoted (strftime created) @ '')'')"

definition payments_sql :: "payment list \<Rightarrow> string" where
  "payments_sql chunk =
     ''INSERT INTO payments (ID, ORDERID, PAYMENTMETHOD, STATUS, AMOUNT, CREATED) VALUES '' @
     join '', '' (map payment_values chunk)"

definition batch_insert_customers ::
  "store_oracle \<Rightarrow> int \<Rightarrow> customer list \<Rightarrow> world \<Rightarrow> (error + unit) \<times> world" where
  "batch_insert_customers fails chunk_size customers w =
     batch_insert fails customers_sql chunk_size customers w"

definition batch_insert_orders ::
  "store_oracle \<Rightarrow> int \<Rightarrow> order list \<Rightarrow> world \<Rightarrow> (error + unit) \<times> world" where
  "batch_insert_orders fails chunk_size orders w =
     batch_insert fails orders_sql chunk_size orders w"

definition batch_insert_payments ::
  "store_oracle \<Rightarrow> int \<Rightarrow> payment list \<Rightarrow> world \<Rightarrow> (error + unit) \<times> world" where
  "batch_insert_payments fails chunk_size payments w =
     batch_insert fails payments_sql chunk_size payments w"

section \<open>The scheduler\<close>

text \<open>
  The configuration read from the environment, and what the run meets outside the program:
  the exception that opening the connection raises, if any, which statements the store
  rejects, the elapsed time measured for each batch, and whether Ctrl+C arrives during
  the wait after a batch.
\<close>

record config =
  batch_size :: int
  batch_interval :: int
  chunk_size :: int

record environment =
  connect_error :: "error option"
  store_fails :: store_oracle
  elapsed_time :: "nat \<Rightarrow> rat"
  interrupted :: "nat \<Rightarrow> bool"
  fake :: faker

text \<open>
  \<open>create_connection\<close> builds the connection string, fetches the token and calls
  \<open>pyodbc.connect\<close>; whatever any of these raises is printed and re-raised, and no
  connection exists then. Which exception, if any, is for the environment to say.
\<close>

definition create_connection :: "environment \<Rightarrow> world \<Rightarrow> (error + unit) \<times> world" where
  "create_connection env w =
     (case connect_error env of
        Some e \<Rightarrow> (Inl e, w)
      | None \<Rightarrow> (Inr (), w\<lparr>opens := Suc (opens w)\<rparr>))"

definition create_customers_table :: string where
  "create_customers_table =
     ''IF NOT EXISTS (SELECT * FROM sys.tables WHERE name = 'customers') BEGIN CREATE TABLE customers (ID INT NOT NULL, FIRST_NAME VARCHAR(8000), LAST_NAME VARCHAR(8000)) END''"

definition create_orders_table :: string where
  "create_orders_table =
     ''IF NOT EXISTS (SELECT * FROM sys.tables WHERE name = 'orders') BEGIN CREATE TABLE orders (ID INT NOT NULL, USER_ID INT, ORDER_DATE DATETIME2(6), STATUS VARCHAR(8000)) END''"

definition create_payments_table :: string where
  "create_payments_table =
     ''IF NOT EXISTS (SELECT * FROM sys.tables WHERE name = 'payments') BEGIN CREATE TABLE payments (ID INT NOT NULL, ORDERID INT, PAYMENTMETHOD VARCHAR(8000), STATUS VARCHAR(8000), AMOUNT DECIMAL(18, 2), CREATED DATETIME2(6)) END''"

text \<open>
  \<open>create_tables_if_not_exist\<close>: three statements and a commit; an exception is re-raised
  without a rollback; the cursor is closed in every case.
\<close>

definition create_tables_if_not_exist :: "store_oracle \<Rightarrow> world \<Rightarrow> (error + unit) \<times> world" where
  "create_tables_if_not_exist fails w =
     (case execute fails create_customers_table w of
        (Inl e, w1) \<Rightarrow> (Inl e, cursor_close w1)
      | (Inr _, w1) \<Rightarrow>
          (case execute fails create_orders_table w1 of
             (Inl e, w2) \<Rightarrow> (Inl e, cursor_close w2)
           | (Inr _, w2) \<Rightarrow>
               (case execute fails create_payments_table w2 of
                  (Inl e, w3) \<Rightarrow> (Inl e, cursor_close w3)
                | (Inr _, w3) \<Rightarrow> (Inr (), cursor_close (commit w3)))))"

text \<open>
  The \<open>while True\<close> loop. It is left only by an exception, so a result is the exception
  together with the batch number and the state reached; \<open>None\<close> means that the loop is
  still running when the given number of rounds is used up.
\<close>

fun run_loop ::
  "nat \<Rightarrow> config \<Rightarrow> environment \<Rightarrow> int \<Rightarrow> globals \<Rightarrow> world
     \<Rightarrow> (error \<times> int \<times> globals \<times> world) option" where
  "run_loop 0 cfg env batch_number st w = None"
| "run_loop (Suc rounds) cfg env batch_number st w =
     (let batch_number = batch_number + 1;
          (customers, st1) = generate_customers (fake env) (batch_size cfg) st
      in case generate_orders (fake env) (batch_size cfg) (customer_id_counter st1 - 1) st1 of
           (Inl e, st2) \<Rightarrow> Some (e, batch_number, st2, w)
         | (Inr orders, st2) \<Rightarrow>
        (case generate_payments (fake env) (batch_size cfg) (order_id_counter st2 - 1) st2 of
           (Inl e, st3) \<Rightarrow> Some (e, batch_number, st3, w)
         | (Inr payments, st3) \<Rightarrow>
        (case batch_insert_customers (store_fails env) (chunk_size cfg) customers w of
           (Inl e, w1) \<Rightarrow> Some (e, batch_number, st3, w1)
         | (Inr _, w1) \<Rightarrow>
        (case batch_insert_orders (store_fails env) (chunk_size cfg) orders w1 of
           (Inl e, w2) \<Rightarrow> Some (e, batch_number, st3, w2)
         | (Inr _, w2) \<Rightarrow>
        (case batch_insert_payments (store_fails env) (chunk_size cfg) payments w2 of
           (Inl e, w3) \<Rightarrow> Some (e, batch_number, st3, w3)
         | (Inr _, w3) \<Rightarrow>
             if elapsed_time env (nat batch_number) = 0
             then Some (ZeroDivisionError, batch_number, st3, w3)
             else if batch_interval cfg < 0 then Some (ValueError, batch_number, st3, w3)
             else if interrupted env (nat batch_number)
             then Some (KeyboardInterrupt, batch_number, st3, w3)
             else run_loop rounds cfg env batch_number st3 w3)))))"

text \<open>
  \<open>run_generator\<close>: the connection and the table check come before the \<open>try\<close>; the
  \<open>finally\<close> clause that closes the connection belongs to the \<open>try\<close> around the loop.
  KeyboardInterrupt ends the run normally, any other exception is re-raised.
\<close>

definition run_generator ::
  "nat \<Rightarrow> config \<Rightarrow> environment \<Rightarrow> globals \<Rightarrow> world \<Rightarrow> ((error + unit) \<times> globals \<times> world) option" where
  "run_generator rounds cfg env st w =
     (case create_connection env w of
        (Inl e, w0) \<Rightarrow> Some (Inl e, st, w0)
      | (Inr _, w0) \<Rightarrow>
          (case create_tables_if_not_exist (store_fails env) w0 of
             (Inl e, w1) \<Rightarrow> Some (Inl e, st, w1)
           | (Inr _, w1) \<Rightarrow>
               (case run_loop rounds cfg env 0 st w1 of
                  None \<Rightarrow> None
                | Some (e, batch_number, st', w2) \<Rightarrow>
                    if e = KeyboardInterrupt then Some (Inr (), st', close w2)
                    else Some (Inl e, st', close w2))))"

text \<open>The store before the run: nothing opened, nothing submitted.\<close>

definition initial_world :: world where
  "initial_world =
     \<lparr>opens = 0, committed = [], pending = [], attempted = [], commits = 0, rollbacks = 0,
      cursors_closed = 0, closes = 0, progress = []\<rparr>"

section \<open>Example inputs\<close>

text \<open>Concrete rows, stores and random sources, used where a statement is evaluated.\<close>

definition example_customers :: "customer list" where
  "example_customers =
     [(1, ''Ann'', ''Lee''), (2, ''Bob'', ''Ray''), (3, ''Cleo'', ''Diaz''),
      (4, ''Dan'', ''Ito''), (5, ''Eve'', ''Kim'')]"

definition numbered_customers :: "int \<Rightarrow> customer list" where
  "numbered_customers n = map (\<lambda>i. (i, ''Ann'', ''Lee'')) [1..n]"

text \<open>A store that rejects the second statement submitted to it, and one that rejects the first.\<close>

definition reject_second :: store_oracle where
  "reject_second n sql = (n = 1)"

definition reject_first :: store_oracle where
  "reject_first n sql = (n = 0)"

definition example_datetime :: datetime where
  "example_datetime =
     \<lparr>year = 2024, month = 3, day = 9, hour = 7, minute = 5, second = 1, microsecond = 250000\<rparr>"

definition example_faker :: faker where
  "example_faker =
     \<lparr>first_name = (\<lambda>raw. ''Ann''), last_name = (\<lambda>raw. ''Lee''),
      date_time_between = (\<lambda>raw. example_datetime)\<rparr>"

text \<open>Two random sources: one that yields 0, 1, 2, ... and one that yields 0 forever.\<close>

definition counting :: "nat \<Rightarrow> nat" where
  "counting n = n"

definition zeros :: "nat \<Rightarrow> nat" where
  "zeros n = 0"


text \<open>
  The default configuration, and two environments: one whose store rejects the first
  statement it is sent, which is the first statement of the table check, and one whose
  store accepts everything and where Ctrl+C arrives during the first wait.
\<close>

definition default_config :: config where
  "default_config = \<lparr>batch_size = 10000, batch_interval = 5, chunk_size = 1000\<rparr>"

definition table_check_fails :: environment where
  "table_check_fails =
     \<lparr>connect_error = None, store_fails = reject_first, elapsed_time = (\<lambda>batch. 1),
      interrupted = (\<lambda>batch. True), fake = example_faker\<rparr>"

definition stopped_by_user :: environment where
  "stopped_by_user =
     \<lparr>connect_error = None, store_fails = accept_all, elapsed_time = (\<lambda>batch. 1),
      interrupted = (\<lambda>batch. True), fake = example_faker\<rparr>"

section \<open>Facts about ranges, slices and the load loop\<close>

lemma range_list_pos:
  "0 < C \<Longrightarrow> range_list i n C = (if i < n then i # range_list (i + C) n C else [])"
  by (subst range_list.simps) simp

lemma length_range_list:
  "0 < C \<Longrightarrow> int (length (range_list i n C)) = (if i < n then (n - i + C - 1) div C else 0)"
proof (induction i n C rule: range_list.induct)
  case (1 i n C)
  show ?case
  proof (cases "i < n")
    case False
    with 1(3) show ?thesis by (simp add: range_list_pos)
  next
    case True
    have step: "range_list i n C = i # range_list (i + C) n C"
      using True 1(3) by (simp add: range_list_pos)
    have ih: "int (length (range_list (i + C) n C)) = (if i + C < n then (n - (i + C) + C - 1) div C else 0)"
      using 1(1) True 1(3) by simp
    show ?thesis
    proof (cases "i + C < n")
      case True
      have "(n - i + C - 1) div C = (n - (i + C) + C - 1 + C) div C" by (simp add: algebra_simps)
      also have "\<dots> = (n - (i + C) + C - 1) div C + 1"
        using 1(3) by simp
      finally show ?thesis using step ih True \<open>i < n\<close> by simp
    next
      case False
      have "(n - i + C - 1) div C = 1"
      proof -
        have e: "n - i + C - 1 = (n - i - 1) + 1 * C" by simp
        have b: "0 \<le> n - i - 1" "n - i - 1 < C" using \<open>i < n\<close> False by auto
        have "C \<noteq> 0" using 1(3) by simp
        then have "((n - i - 1) + 1 * C) div C = 1 + (n - i - 1) div C"
          by (rule div_mult_self1)
        then show ?thesis unfolding e using b by (simp add: div_pos_pos_trivial)
      qed
      then show ?thesis using step ih False \<open>i < n\<close> by simp
    qed
  qed
qed

lemma range_list_bounds:
  "0 < C \<Longrightarrow> 0 \<le> i \<Longrightarrow> j \<in> set (range_list i n C) \<Longrightarrow> i \<le> j \<and> j < n"
proof (induction i n C rule: range_list.induct)
  case (1 i n C)
  show ?case
  proof (cases "i < n")
    case False
    with 1 show ?thesis by (simp add: range_list_pos)
  next
    case True
    have step: "range_list i n C = i # range_list (i + C) n C"
      using True 1(3) by (simp add: range_list_pos)
    from 1(5) step have "j = i \<or> j \<in> set (range_list (i + C) n C)" by simp
    then show ?thesis
    proof
      assume "j = i" with True show ?thesis by simp
    next
      assume "j \<in> set (range_list (i + C) n C)"
      with 1(1) True 1(3,4) have "i + C \<le> j \<and> j < n" by simp
      with 1(3) show ?thesis by simp
    qed
  qed
qed

lemma range_list_nth:
  "0 < C \<Longrightarrow> j < length (range_list i n C) \<Longrightarrow> range_list i n C ! j = i + int j * C"
proof (induction i n C arbitrary: j rule: range_list.induct)
  case (1 i n C)
  show ?case
  proof (cases "i < n")
    case False
    with 1 show ?thesis by (simp add: range_list_pos)
  next
    case True
    have step: "range_list i n C = i # range_list (i + C) n C"
      using True 1(3) by (simp add: range_list_pos)
    show ?thesis
    proof (cases j)
      case 0
      then show ?thesis using step by simp
    next
      case (Suc k)
      with 1(4) step have "k < length (range_list (i + C) n C)" by simp
      with 1(1) True 1(3) have "range_list (i + C) n C ! k = i + C + int k * C" by simp
      then show ?thesis using step Suc by (simp add: algebra_simps)
    qed
  qed
qed

lemma py_slice_chunk:
  "0 \<le> i \<Longrightarrow> i < int (length xs) \<Longrightarrow> 0 < C \<Longrightarrow>
   py_slice xs i (i + C) = take (nat C) (drop (nat i) xs)"
  by (auto simp: py_slice_def clamp_index_def Let_def min_def)

lemma concat_chunks_from:
  "0 < C \<Longrightarrow> 0 \<le> i \<Longrightarrow>
   concat (map (\<lambda>i. py_slice xs i (i + C)) (range_list i (int (length xs)) C)) = drop (nat i) xs"
proof (induction i "int (length xs)" C rule: range_list.induct)
  case (1 i C)
  show ?case
  proof (cases "i < int (length xs)")
    case False
    with 1 show ?thesis by (simp add: range_list_pos)
  next
    case True
    have step: "range_list i (int (length xs)) C = i # range_list (i + C) (int (length xs)) C"
      using True 1(3) by (simp add: range_list_pos)
    have ih: "concat (map (\<lambda>i. py_slice xs i (i + C)) (range_list (i + C) (int (length xs)) C))
                = drop (nat (i + C)) xs"
      using 1(1) True 1(3,4) by simp
    have "nat (i + C) = nat C + nat i" using 1(3,4) by (simp add: nat_add_distrib)
    then have "drop (nat (i + C)) xs = drop (nat C) (drop (nat i) xs)" by simp
    moreover have "take (nat C) (drop (nat i) xs) @ drop (nat C) (drop (nat i) xs) = drop (nat i) xs"
      by (rule append_take_drop_id)
    ultimately show ?thesis
      using step ih py_slice_chunk[OF 1(4) True 1(3)] by (simp del: drop_drop)
  qed
qed


lemma insert_chunks_append:
  "insert_chunks fails render C rows (xs @ ys) w =
     (case insert_chunks fails render C rows xs w of
        (Inl e, w') \<Rightarrow> (Inl e, w')
      | (Inr u, w') \<Rightarrow> insert_chunks fails render C rows ys w')"
proof (induction xs arbitrary: w)
  case Nil
  show ?case by simp
next
  case (Cons i xs)
  show ?case
    by (cases "execute fails (render (py_slice rows i (i + C))) w")
       (auto simp: Let_def Cons.IH split: sum.splits)
qed

lemma insert_chunks_accepted:
  assumes "\<forall>j<length idxs.
             \<not> fails (length (attempted w) + j) (render (py_slice rows (idxs ! j) (idxs ! j + C)))"
  shows "insert_chunks fails render C rows idxs w =
           (Inr (),
            w\<lparr>attempted := attempted w @ map (\<lambda>i. render (py_slice rows i (i + C))) idxs,
              pending := pending w @ map (\<lambda>i. render (py_slice rows i (i + C))) idxs,
              progress := progress w @
                map (\<lambda>i. (min (i + C) (int (length rows)), int (length rows)))
                  (filter (\<lambda>i. (i + C) mod 5000 = 0) idxs)\<rparr>)"
  using assms
proof (induction idxs arbitrary: w)
  case Nil
  show ?case by simp
next
  case (Cons i idxs)
  let ?sql = "render (py_slice rows i (i + C))"
  from Cons.prems have ok: "\<not> fails (length (attempted w)) ?sql" by fastforce
  let ?w1 = "w\<lparr>attempted := attempted w @ [?sql], pending := pending w @ [?sql]\<rparr>"
  have ex: "execute fails ?sql w = (Inr (), ?w1)"
    using ok by (simp add: execute_def Let_def)
  let ?w2 = "if (i + C) mod 5000 = 0
             then ?w1\<lparr>progress := progress ?w1 @ [(min (i + C) (int (length rows)), int (length rows))]\<rparr>
             else ?w1"
  have att: "attempted ?w2 = attempted w @ [?sql]" by simp
  have rest: "\<forall>j<length idxs.
      \<not> fails (length (attempted ?w2) + j) (render (py_slice rows (idxs ! j) (idxs ! j + C)))"
  proof (intro allI impI)
    fix j assume "j < length idxs"
    then have "Suc j < length (i # idxs)" by simp
    with Cons.prems have "\<not> fails (length (attempted w) + Suc j)
        (render (py_slice rows ((i # idxs) ! Suc j) ((i # idxs) ! Suc j + C)))" by blast
    then show "\<not> fails (length (attempted ?w2) + j) (render (py_slice rows (idxs ! j) (idxs ! j + C)))"
      by (simp add: att del: world.simps)
  qed
  have step: "insert_chunks fails render C rows (i # idxs) w
                = insert_chunks fails render C rows idxs ?w2"
    using ex by (simp add: Let_def)
  show ?case
    unfolding step Cons.IH[OF rest] by simp
qed


lemma insert_chunks_rejected:
  assumes k: "k < length idxs"
    and ok: "\<forall>j<k. \<not> fails (length (attempted w) + j)
                     (render (py_slice rows (idxs ! j) (idxs ! j + C)))"
    and bad: "fails (length (attempted w) + k) (render (py_slice rows (idxs ! k) (idxs ! k + C)))"
  shows "insert_chunks fails render C rows idxs w =
           (Inl StoreError,
            w\<lparr>attempted := attempted w @ map (\<lambda>i. render (py_slice rows i (i + C))) (take (Suc k) idxs),
              pending := pending w @ map (\<lambda>i. render (py_slice rows i (i + C))) (take k idxs),
              progress := progress w @
                map (\<lambda>i. (min (i + C) (int (length rows)), int (length rows)))
                  (filter (\<lambda>i. (i + C) mod 5000 = 0) (take k idxs))\<rparr>)"
proof -
  let ?R = "\<lambda>i. render (py_slice rows i (i + C))"
  let ?P = "\<lambda>xs. map (\<lambda>i. (min (i + C) (int (length rows)), int (length rows)))
                  (filter (\<lambda>i. (i + C) mod 5000 = 0) xs)"
  let ?w1 = "w\<lparr>attempted := attempted w @ map ?R (take k idxs),
               pending := pending w @ map ?R (take k idxs),
               progress := progress w @ ?P (take k idxs)\<rparr>"
  have split: "idxs = take k idxs @ (idxs ! k # drop (Suc k) idxs)"
    using k by (simp add: Cons_nth_drop_Suc)
  have pre: "\<forall>j<length (take k idxs). \<not> fails (length (attempted w) + j)
                (render (py_slice rows (take k idxs ! j) (take k idxs ! j + C)))"
    using ok k by simp
  have first: "insert_chunks fails render C rows (take k idxs) w = (Inr (), ?w1)"
    by (rule insert_chunks_accepted[OF pre])
  have len: "length (attempted ?w1) = length (attempted w) + k"
    using k by simp
  have ex: "execute fails (?R (idxs ! k)) ?w1 =
              (Inl StoreError, ?w1\<lparr>attempted := attempted ?w1 @ [?R (idxs ! k)]\<rparr>)"
    unfolding execute_def Let_def len using bad by simp
  have "insert_chunks fails render C rows idxs w
          = insert_chunks fails render C rows (idxs ! k # drop (Suc k) idxs) ?w1"
    by (subst split, subst insert_chunks_append) (simp add: first)
  also have "\<dots> = (Inl StoreError, ?w1\<lparr>attempted := attempted ?w1 @ [?R (idxs ! k)]\<rparr>)"
    using ex by (simp add: Let_def)
  also have "?w1\<lparr>attempted := attempted ?w1 @ [?R (idxs ! k)]\<rparr> =
             w\<lparr>attempted := attempted w @ map ?R (take (Suc k) idxs),
               pending := pending w @ map ?R (take k idxs),
               progress := progress w @ ?P (take k idxs)\<rparr>"
    using k by (simp add: take_Suc_conv_app_nth)
  finally show ?thesis .
qed

lemma chunks_nth:
  "j < length (chunks rows C) \<Longrightarrow>
   chunks rows C ! j =
     py_slice rows (range_list 0 (int (length rows)) C ! j) (range_list 0 (int (length rows)) C ! j + C)"
  by (simp add: chunks_def)

lemma length_chunks: "length (chunks rows C) = length (range_list 0 (int (length rows)) C)"
  by (simp add: chunks_def)

lemma batch_insert_accepted:
  assumes C: "C \<noteq> 0"
    and ok: "\<forall>j<length (chunks rows C).
               \<not> fails (length (attempted w) + j) (render (chunks rows C ! j))"
  shows "batch_insert fails render C rows w =
           (Inr (),
            cursor_close (commit
              (w\<lparr>attempted := attempted w @ map render (chunks rows C),
                 pending := pending w @ map render (chunks rows C),
                 progress := progress w @
                   map (\<lambda>i. (min (i + C) (int (length rows)), int (length rows)))
                     (filter (\<lambda>i. (i + C) mod 5000 = 0)
                        (range_list 0 (int (length rows)) C))\<rparr>)))"
proof -
  let ?idxs = "range_list 0 (int (length rows)) C"
  have ok': "\<forall>j<length ?idxs. \<not> fails (length (attempted w) + j)
               (render (py_slice rows (?idxs ! j) (?idxs ! j + C)))"
    using ok by (simp add: length_chunks chunks_nth)
  have m: "map render (chunks rows C) = map (\<lambda>i. render (py_slice rows i (i + C))) ?idxs"
    by (simp add: chunks_def)
  show ?thesis
    unfolding batch_insert_def Let_def m
    using C by (simp add: py_range_def insert_chunks_accepted[OF ok'])
qed

lemma batch_insert_rejected:
  assumes C: "C \<noteq> 0"
    and k: "k < length (chunks rows C)"
    and ok: "\<forall>j<k. \<not> fails (length (attempted w) + j) (render (chunks rows C ! j))"
    and bad: "fails (length (attempted w) + k) (render (chunks rows C ! k))"
  shows "batch_insert fails render C rows w =
           (Inl StoreError,
            cursor_close (rollback
              (w\<lparr>attempted := attempted w @ map render (take (Suc k) (chunks rows C)),
                 pending := pending w @ map render (take k (chunks rows C)),
                 progress := progress w @
                   map (\<lambda>i. (min (i + C) (int (length rows)), int (length rows)))
                     (filter (\<lambda>i. (i + C) mod 5000 = 0)
                        (take k (range_list 0 (int (length rows)) C)))\<rparr>)))"
proof -
  let ?idxs = "range_list 0 (int (length rows)) C"
  have k': "k < length ?idxs" using k by (simp add: length_chunks)
  have ok': "\<forall>j<k. \<not> fails (length (attempted w) + j)
               (render (py_slice rows (?idxs ! j) (?idxs ! j + C)))"
    using ok k by (simp add: chunks_nth)
  have bad': "fails (length (attempted w) + k) (render (py_slice rows (?idxs ! k) (?idxs ! k + C)))"
    using bad k by (simp add: chunks_nth)
  have m: "\<And>n. map render (take n (chunks rows C)) =
             map (\<lambda>i. render (py_slice rows i (i + C))) (take n ?idxs)"
    by (simp add: chunks_def take_map)
  show ?thesis
    unfolding batch_insert_def Let_def m
    using C by (simp add: py_range_def insert_chunks_rejected[OF k' ok' bad'])
qed

lemma chunk_contiguous:
  assumes C: "1 \<le> C" and j: "j < length (chunks rows C)"
  shows "chunks rows C ! j = take (nat C) (drop (j * nat C) rows)"
proof -
  let ?idxs = "range_list 0 (int (length rows)) C"
  have j': "j < length ?idxs" using j by (simp add: length_chunks)
  have nth: "?idxs ! j = int j * C" using range_list_nth[of C j 0] C j' by simp
  have "?idxs ! j \<in> set ?idxs" using j' by simp
  then have b: "0 \<le> ?idxs ! j \<and> ?idxs ! j < int (length rows)"
    using range_list_bounds[of C 0 "?idxs ! j" "int (length rows)"] C by simp
  have "nat (int j * C) = j * nat C" using C by (simp add: nat_mult_distrib)
  then show ?thesis
    using py_slice_chunk[of "?idxs ! j" rows C] b C nth by (simp add: chunks_nth[OF j])
qed

lemma neg_div_neg_ceiling:
  fixes n C :: int
  assumes C: "0 < C"
  shows "- (- n div C) = (n + C - 1) div C"
proof -
  define q r where "q = n div C" and "r = n mod C"
  have n: "n = q * C + r" and r: "0 \<le> r" "r < C"
    using C by (simp_all add: q_def r_def)
  have C0: "C \<noteq> 0" using C by simp
  show ?thesis
  proof (cases "r = 0")
    case True
    have e1: "n + C - 1 = (C - 1) + q * C" using n True by simp
    have "(n + C - 1) div C = q + (C - 1) div C"
      unfolding e1 by (rule div_mult_self1[OF C0])
    moreover have "(C - 1) div C = 0" using C by (simp add: div_pos_pos_trivial)
    moreover have e2: "- n = 0 + (- q) * C" using n True by simp
    have "- n div C = (- q) + 0 div C"
      unfolding e2 by (rule div_mult_self1[OF C0])
    ultimately show ?thesis by simp
  next
    case False
    have e1: "n + C - 1 = (r - 1) + (q + 1) * C" using n by (simp add: algebra_simps)
    have "(n + C - 1) div C = (q + 1) + (r - 1) div C"
      unfolding e1 by (rule div_mult_self1[OF C0])
    moreover have "(r - 1) div C = 0" using r False by (simp add: div_pos_pos_trivial)
    moreover have e2: "- n = (C - r) + (- (q + 1)) * C" using n by (simp add: algebra_simps)
    have "- n div C = (- (q + 1)) + (C - r) div C"
      unfolding e2 by (rule div_mult_self1[OF C0])
    moreover have "(C - r) div C = 0" using r False by (simp add: div_pos_pos_trivial)
    ultimately show ?thesis by simp
  qed
qed

lemma length_chunks_ceiling:
  assumes C: "1 \<le> C"
  shows "int (length (chunks rows C)) = \<lceil>real (length rows) / real_of_int C\<rceil>"
proof -
  let ?n = "int (length rows)"
  have "int (length (chunks rows C)) = (if 0 < ?n then (?n + C - 1) div C else 0)"
    using length_range_list[of C 0 ?n] C by (simp add: length_chunks)
  also have "\<dots> = - (- ?n div C)"
    using neg_div_neg_ceiling[of C ?n] C by simp
  also have "\<dots> = \<lceil>real_of_int ?n / real_of_int C\<rceil>"
    by (rule ceiling_divide_eq_div[symmetric])
  finally show ?thesis by simp
qed

lemma concat_chunks: "1 \<le> C \<Longrightarrow> concat (chunks rows C) = rows"
  using concat_chunks_from[of C 0 rows] by (simp add: chunks_def)

lemma accept_all_accepts: "\<not> accept_all n sql"
  by (simp add: accept_all_def)

section \<open>Claims about the chunked load\<close>

text \<open>
  C4. For a row sequence of length R and a chunk size C of at least 1, the load splits the
  rows into exactly ceil(R / C) contiguous chunks: chunk j is the C rows from offset j * C
  on, each chunk is non-empty and of size at most C, every chunk but the last has size
  exactly C, and the chunks concatenated in order are the original rows. On a store that
  accepts everything the load succeeds and the statements it submits are these chunks,
  rendered, in order.
\<close>

theorem load_splits_rows_into_chunks:
  assumes "1 \<le> C"
  shows "int (length (chunks rows C)) = \<lceil>real (length rows) / real_of_int C\<rceil>
       \<and> (\<forall>j<length (chunks rows C). chunks rows C ! j = take (nat C) (drop (j * nat C) rows))
       \<and> (\<forall>c\<in>set (chunks rows C). c \<noteq> [] \<and> int (length c) \<le> C)
       \<and> (\<forall>j. Suc j < length (chunks rows C) \<longrightarrow> int (length (chunks rows C ! j)) = C)
       \<and> concat (chunks rows C) = rows
       \<and> fst (batch_insert accept_all render C rows w) = Inr ()
       \<and> attempted (snd (batch_insert accept_all render C rows w))
           = attempted w @ map render (chunks rows C)"
proof -
  let ?cs = "chunks rows C"
  let ?idxs = "range_list 0 (int (length rows)) C"
  have C0: "C \<noteq> 0" "0 < C" using assms by simp_all
  have bounds: "\<And>j. j < length ?cs \<Longrightarrow> 0 \<le> int j * C \<and> int j * C < int (length rows)"
  proof -
    fix j assume j: "j < length ?cs"
    then have j': "j < length ?idxs" by (simp add: length_chunks)
    then have "?idxs ! j \<in> set ?idxs" by simp
    then have "0 \<le> ?idxs ! j \<and> ?idxs ! j < int (length rows)"
      using range_list_bounds[of C 0 "?idxs ! j" "int (length rows)"] C0 by simp
    then show "0 \<le> int j * C \<and> int j * C < int (length rows)"
      using range_list_nth[of C j 0 "int (length rows)"] C0 j' by simp
  qed
  have lt: "\<And>j. j < length ?cs \<Longrightarrow> j * nat C < length rows"
  proof -
    fix j assume "j < length ?cs"
    from bounds[OF this] have "int j * C < int (length rows)" by simp
    moreover have "int (j * nat C) = int j * C" using C0 by simp
    ultimately show "j * nat C < length rows" by linarith
  qed
  have contiguous: "\<forall>j<length ?cs. ?cs ! j = take (nat C) (drop (j * nat C) rows)"
    using chunk_contiguous[OF assms] by blast
  have sizes: "\<forall>c\<in>set ?cs. c \<noteq> [] \<and> int (length c) \<le> C"
  proof
    fix c assume "c \<in> set ?cs"
    then obtain j where j: "j < length ?cs" and c: "c = ?cs ! j"
      by (auto simp: in_set_conv_nth)
    have "c = take (nat C) (drop (j * nat C) rows)" using contiguous j c by simp
    moreover have "j * nat C < length rows" by (rule lt[OF j])
    ultimately show "c \<noteq> [] \<and> int (length c) \<le> C" using C0 by auto
  qed
  have full: "\<forall>j. Suc j < length ?cs \<longrightarrow> int (length (?cs ! j)) = C"
  proof (intro allI impI)
    fix j assume sj: "Suc j < length ?cs"
    then have j: "j < length ?cs" by simp
    have "Suc j * nat C < length rows" by (rule lt[OF sj])
    then have "nat C \<le> length rows - j * nat C" by simp
    moreover have "?cs ! j = take (nat C) (drop (j * nat C) rows)" using contiguous j by simp
    ultimately show "int (length (?cs ! j)) = C" using C0 by simp
  qed
  have acc: "\<forall>j<length ?cs. \<not> accept_all (length (attempted w) + j) (render (?cs ! j))"
    by (simp add: accept_all_accepts)
  note run = batch_insert_accepted[OF C0(1) acc]
  have r1: "fst (batch_insert accept_all render C rows w) = Inr ()"
    by (simp add: run)
  have r2: "attempted (snd (batch_insert accept_all render C rows w))
              = attempted w @ map render ?cs"
    by (simp add: run cursor_close_def commit_def)
  show ?thesis
    using length_chunks_ceiling[OF assms] contiguous sizes full concat_chunks[OF assms] r1 r2
    by blast
qed

theorem load_splits_rows_into_chunks_witness:
  "(1::int) \<le> 20
   \<and> int (length (chunks [1..50] 20)) = \<lceil>real (length [1..50]) / real_of_int 20\<rceil>
   \<and> concat (chunks [1..50] 20) = [1..50]
   \<and> map length (chunks [1..50] 20) = [20, 20, 10]"
proof -
  have len: "length [1..50] = 50" by simp
  have idx: "range_list 0 50 20 = [0, 20, 40]" by (simp add: range_list.simps)
  have sizes: "map length (chunks [1..50] 20) = [20, 20, 10]"
    by (simp add: chunks_def idx py_slice_def clamp_index_def Let_def del: upto.simps)
  show ?thesis
    using load_splits_rows_into_chunks[of 20 "[1..50]"] sizes by simp
qed

lemma batch_insert_zero_step:
  "batch_insert fails render 0 rows w = (Inl ValueError, cursor_close (rollback w))"
  by (simp add: batch_insert_def py_range_def)

lemma chunks_empty: "chunks [] C = []"
  by (simp add: chunks_def range_list.simps)

text \<open>
  C10, as the code has it. A load of an empty row sequence succeeds when the configured
  chunk size is not 0: it submits no statement, prints no progress line, performs exactly
  one commit and no rollback.
\<close>

theorem empty_load_commits_once:
  assumes "C \<noteq> 0"
  shows "batch_insert fails render C [] w = (Inr (), cursor_close (commit w))
       \<and> attempted (cursor_close (commit w)) = attempted w
       \<and> progress (cursor_close (commit w)) = progress w
       \<and> commits (cursor_close (commit w)) = Suc (commits w)
       \<and> rollbacks (cursor_close (commit w)) = rollbacks w"
  using assms
  by (simp add: batch_insert_def py_range_def range_list.simps cursor_close_def commit_def)

theorem empty_load_commits_once_witness:
  "(1000::int) \<noteq> 0
   \<and> fst (batch_insert_customers reject_first 1000 [] initial_world) = Inr ()
   \<and> attempted (snd (batch_insert_customers reject_first 1000 [] initial_world)) = []
   \<and> progress (snd (batch_insert_customers reject_first 1000 [] initial_world)) = []
   \<and> commits (snd (batch_insert_customers reject_first 1000 [] initial_world)) = 1"
  using empty_load_commits_once[of 1000 reject_first customers_sql initial_world]
  by (simp add: batch_insert_customers_def initial_world_def cursor_close_def commit_def)

text \<open>
  The claim as the specification states it, for every load of an empty row sequence, fails
  when \<open>CHUNK_SIZE\<close> is 0: the \<open>range\<close> of the loop raises ValueError inside the
  \<open>try\<close>, so the call fails with no commit and one rollback.
\<close>

theorem empty_load_zero_chunk_size_counterexample:
  "fst (batch_insert_customers accept_all 0 [] initial_world) = Inl ValueError
   \<and> commits (snd (batch_insert_customers accept_all 0 [] initial_world)) = 0
   \<and> rollbacks (snd (batch_insert_customers accept_all 0 [] initial_world)) = 1"
  by (simp add: batch_insert_customers_def batch_insert_zero_step cursor_close_def rollback_def
      initial_world_def)

lemma batch_insert_ok_accepted:
  assumes C: "C \<noteq> 0"
    and ok: "fst (batch_insert fails render C rows w) = Inr ()"
  shows "\<forall>j<length (chunks rows C).
           \<not> fails (length (attempted w) + j) (render (chunks rows C ! j))"
proof (rule ccontr)
  assume "\<not> ?thesis"
  then have ex: "\<exists>j. j < length (chunks rows C) \<and>
                   fails (length (attempted w) + j) (render (chunks rows C ! j))"
    by blast
  define k where "k = (LEAST j. j < length (chunks rows C) \<and>
                   fails (length (attempted w) + j) (render (chunks rows C ! j)))"
  have k: "k < length (chunks rows C) \<and> fails (length (attempted w) + k) (render (chunks rows C ! k))"
    unfolding k_def using ex by (rule LeastI_ex)
  have before: "\<forall>j<k. \<not> fails (length (attempted w) + j) (render (chunks rows C ! j))"
  proof (intro allI impI notI)
    fix j assume "j < k" and "fails (length (attempted w) + j) (render (chunks rows C ! j))"
    moreover from \<open>j < k\<close> k have "j < length (chunks rows C)" by simp
    ultimately have "k \<le> j" unfolding k_def by (intro Least_le) simp
    with \<open>j < k\<close> show False by simp
  qed
  have "fst (batch_insert fails render C rows w) = Inl StoreError"
    using batch_insert_rejected[OF C _ before] k by simp
  with ok show False by simp
qed

lemma range_list_member:
  "0 < C \<Longrightarrow> s \<le> i \<Longrightarrow> i < n \<Longrightarrow> C dvd (i - s) \<Longrightarrow> i \<in> set (range_list s n C)"
proof (induction s n C rule: range_list.induct)
  case (1 s n C)
  have sn: "s < n" using 1(4,5) by simp
  have step: "range_list s n C = s # range_list (s + C) n C"
    using sn 1(3) by (simp add: range_list_pos)
  show ?case
  proof (cases "i = s")
    case True
    then show ?thesis using step by simp
  next
    case False
    then have pos: "0 < i - s" using 1(4) by simp
    from 1(6) obtain q where q: "i - s = C * q" by (auto simp: dvd_def)
    have "0 < q" using pos q 1(3) by (simp add: zero_less_mult_iff)
    then have "C * 1 \<le> C * q" using 1(3) by (intro mult_left_mono) simp_all
    then have le: "s + C \<le> i" using q by simp
    have "i - (s + C) = C * (q - 1)" using q by (simp add: algebra_simps)
    then have "C dvd (i - (s + C))" by simp
    then have "i \<in> set (range_list (s + C) n C)"
      using 1(1) sn 1(3) le 1(5) by simp
    then show ?thesis using step by simp
  qed
qed

lemma batch_insert_accept_all:
  assumes "C \<noteq> 0"
  shows "batch_insert accept_all render C rows w =
           (Inr (),
            cursor_close (commit
              (w\<lparr>attempted := attempted w @ map render (chunks rows C),
                 pending := pending w @ map render (chunks rows C),
                 progress := progress w @
                   map (\<lambda>i. (min (i + C) (int (length rows)), int (length rows)))
                     (filter (\<lambda>i. (i + C) mod 5000 = 0)
                        (range_list 0 (int (length rows)) C))\<rparr>)))"
  by (rule batch_insert_accepted[OF assms]) (simp add: accept_all_accepts)

lemma length_numbered_customers: "0 \<le> n \<Longrightarrow> int (length (numbered_customers n)) = n"
  by (simp add: numbered_customers_def)

lemma chunks_example_customers:
  "chunks example_customers 2 =
     [[(1, ''Ann'', ''Lee''), (2, ''Bob'', ''Ray'')],
      [(3, ''Cleo'', ''Diaz''), (4, ''Dan'', ''Ito'')],
      [(5, ''Eve'', ''Kim'')]]"
  by (simp add: chunks_def example_customers_def range_list.simps py_slice_def clamp_index_def)

text \<open>
  C1, as the code has it. When chunks 1 to k - 1 of a load are accepted and chunk k
  (1-indexed) is rejected, the failure is raised to the caller; chunks 1 to k have each
  been submitted once and no later chunk is submitted; no commit has been issued, and the
  one rollback discards the whole open transaction, chunks 1 to k - 1 included, so the
  durable content of the store is what it was before the call.
\<close>

theorem failed_chunk_rolls_back_whole_load:
  assumes "1 \<le> C"
    and "1 \<le> k" and "k \<le> length (chunks rows C)"
    and "\<forall>j<k - 1. \<not> fails (length (attempted w) + j) (render (chunks rows C ! j))"
    and "fails (length (attempted w) + (k - 1)) (render (chunks rows C ! (k - 1)))"
  shows "fst (batch_insert fails render C rows w) = Inl StoreError
       \<and> attempted (snd (batch_insert fails render C rows w))
           = attempted w @ map render (take k (chunks rows C))
       \<and> committed (snd (batch_insert fails render C rows w)) = committed w
       \<and> pending (snd (batch_insert fails render C rows w)) = []
       \<and> commits (snd (batch_insert fails render C rows w)) = commits w
       \<and> rollbacks (snd (batch_insert fails render C rows w)) = Suc (rollbacks w)"
proof -
  have C0: "C \<noteq> 0" using assms(1) by simp
  have k1: "k - 1 < length (chunks rows C)" using assms(2,3) by simp
  have sk: "Suc (k - 1) = k" using assms(2) by simp
  show ?thesis
    unfolding batch_insert_rejected[OF C0 k1 assms(4) assms(5)] sk
    by (simp add: cursor_close_def rollback_def)
qed

theorem failed_chunk_rolls_back_whole_load_witness:
  "(1::int) \<le> 2 \<and> (1::nat) \<le> 2 \<and> 2 \<le> length (chunks example_customers 2)
   \<and> \<not> reject_second 0 (customers_sql (chunks example_customers 2 ! 0))
   \<and> reject_second 1 (customers_sql (chunks example_customers 2 ! 1))
   \<and> fst (batch_insert reject_second customers_sql 2 example_customers initial_world)
       = Inl StoreError
   \<and> length (attempted (snd (batch_insert reject_second customers_sql 2 example_customers
        initial_world))) = 2
   \<and> committed (snd (batch_insert reject_second customers_sql 2 example_customers
        initial_world)) = []
   \<and> rollbacks (snd (batch_insert reject_second customers_sql 2 example_customers
        initial_world)) = 1"
proof -
  have h3: "2 \<le> length (chunks example_customers 2)"
    by (simp add: chunks_example_customers)
  have h4: "\<forall>j<2 - 1. \<not> reject_second (length (attempted initial_world) + j)
              (customers_sql (chunks example_customers 2 ! j))"
    by (simp add: reject_second_def initial_world_def)
  have h5: "reject_second (length (attempted initial_world) + (2 - 1))
              (customers_sql (chunks example_customers 2 ! (2 - 1)))"
    by (simp add: reject_second_def initial_world_def)
  show ?thesis
    using failed_chunk_rolls_back_whole_load[of 2 2 example_customers reject_second
        initial_world customers_sql, OF _ _ h3 h4 h5] h3
    by (simp add: reject_second_def initial_world_def)
qed

text \<open>
  The claim as the specification states it fails: with five rows in chunks of two and a
  store that rejects the second statement, the first chunk was accepted before the
  failure, yet after the call nothing is committed.
\<close>

theorem completed_chunks_not_persisted_counterexample:
  "\<not> reject_second 0 (customers_sql (chunks example_customers 2 ! 0))
   \<and> fst (batch_insert_customers reject_second 2 example_customers initial_world)
       = Inl StoreError
   \<and> attempted (snd (batch_insert_customers reject_second 2 example_customers initial_world))
       = [customers_sql (chunks example_customers 2 ! 0),
          customers_sql (chunks example_customers 2 ! 1)]
   \<and> customers_sql (chunks example_customers 2 ! 0)
       \<notin> set (committed (snd (batch_insert_customers reject_second 2 example_customers
             initial_world)))
   \<and> committed (snd (batch_insert_customers reject_second 2 example_customers initial_world))
       = []"
proof -
  have C0: "(2::int) \<noteq> 0" by simp
  have k: "1 < length (chunks example_customers 2)"
    by (simp add: chunks_example_customers)
  have ok: "\<forall>j<1. \<not> reject_second (length (attempted initial_world) + j)
              (customers_sql (chunks example_customers 2 ! j))"
    by (simp add: reject_second_def initial_world_def)
  have bad: "reject_second (length (attempted initial_world) + 1)
              (customers_sql (chunks example_customers 2 ! 1))"
    by (simp add: reject_second_def initial_world_def)
  have t: "take (Suc 1) (chunks example_customers 2)
             = [chunks example_customers 2 ! 0, chunks example_customers 2 ! 1]"
    by (simp add: chunks_example_customers)
  show ?thesis
    unfolding batch_insert_customers_def batch_insert_rejected[OF C0 k ok bad] t
    by (simp add: cursor_close_def rollback_def initial_world_def reject_second_def)
qed

text \<open>
  C7, as the code has it. In a successful load a progress line is printed after a chunk
  exactly when the end offset \<open>i + chunk_size\<close> of that chunk is a multiple of 5,000,
  and it carries \<open>(min(i + chunk_size, total), total)\<close>. When the chunk size divides
  5,000, there is such a line \<open>(m, total)\<close> for every multiple \<open>m\<close> of 5,000 up to the
  number of rows.
\<close>

theorem progress_lines_at_end_offsets_divisible_by_5000:
  assumes "C \<noteq> 0"
    and "fst (batch_insert fails render C rows w) = Inr ()"
  shows "progress (snd (batch_insert fails render C rows w)) =
           progress w @
           map (\<lambda>i. (min (i + C) (int (length rows)), int (length rows)))
             (filter (\<lambda>i. (i + C) mod 5000 = 0) (range_list 0 (int (length rows)) C))
       \<and> (1 \<le> C \<and> C dvd 5000 \<longrightarrow>
            (\<forall>m. 0 < m \<and> m \<le> int (length rows) \<and> 5000 dvd m \<longrightarrow>
                 (m, int (length rows)) \<in> set (progress (snd (batch_insert fails render C rows w)))))"
proof -
  let ?n = "int (length rows)"
  let ?idxs = "range_list 0 ?n C"
  let ?P = "map (\<lambda>i. (min (i + C) ?n, ?n)) (filter (\<lambda>i. (i + C) mod 5000 = 0) ?idxs)"
  have acc: "\<forall>j<length (chunks rows C).
               \<not> fails (length (attempted w) + j) (render (chunks rows C ! j))"
    by (rule batch_insert_ok_accepted[OF assms])
  have run: "progress (snd (batch_insert fails render C rows w)) = progress w @ ?P"
    unfolding batch_insert_accepted[OF assms(1) acc]
    by (simp add: cursor_close_def commit_def)
  have every: "(m, ?n) \<in> set ?P"
    if C: "1 \<le> C" "C dvd 5000" and m: "0 < m" "m \<le> ?n" "5000 dvd m" for m
  proof -
    have "C dvd m" using C(2) m(3) by (rule dvd_trans)
    then have d: "C dvd (m - C - 0)" by simp
    have "C \<le> m" using \<open>C dvd m\<close> m(1) by (rule zdvd_imp_le)
    then have lo: "0 \<le> m - C" by simp
    have hi: "m - C < ?n" using m(2) C(1) by simp
    have mem: "m - C \<in> set ?idxs"
      using range_list_member[of C 0 "m - C" ?n] C(1) lo hi d by simp
    have "(m - C + C) mod 5000 = 0" using m(3) by simp
    then have "m - C \<in> set (filter (\<lambda>i. (i + C) mod 5000 = 0) ?idxs)"
      using mem by simp
    then have "(\<lambda>i. (min (i + C) ?n, ?n)) (m - C) \<in> set ?P"
      unfolding set_map by (rule imageI)
    then show ?thesis using m(2) by simp
  qed
  show ?thesis
    unfolding run using every by auto
qed

theorem progress_lines_at_end_offsets_divisible_by_5000_witness:
  "(2500::int) \<noteq> 0
   \<and> fst (batch_insert accept_all customers_sql 2500 (numbered_customers 5000) initial_world)
       = Inr ()
   \<and> progress (snd (batch_insert accept_all customers_sql 2500 (numbered_customers 5000)
        initial_world)) = [(5000, 5000)]"
proof -
  have C0: "(2500::int) \<noteq> 0" by simp
  have ok: "fst (batch_insert accept_all customers_sql 2500 (numbered_customers 5000)
              initial_world) = Inr ()"
    by (simp add: batch_insert_accept_all[OF C0])
  have len: "int (length (numbered_customers 5000)) = 5000"
    by (rule length_numbered_customers) simp
  have idx: "range_list 0 5000 2500 = [0, 2500]"
    by (simp add: range_list.simps)
  show ?thesis
    using progress_lines_at_end_offsets_divisible_by_5000[OF C0 ok] ok
    by (simp add: len idx initial_world_def)
qed

text \<open>
  The claim as the specification states it fails for a chunk size that does not divide
  5,000: 6,000 rows in chunks of 3,000 load successfully, the second chunk takes the
  number of rows absorbed past 5,000, and no progress line is printed.
\<close>

theorem no_progress_line_past_5000_counterexample:
  "fst (batch_insert_customers accept_all 3000 (numbered_customers 6000) initial_world) = Inr ()
   \<and> length (numbered_customers 6000) = 6000
   \<and> progress (snd (batch_insert_customers accept_all 3000 (numbered_customers 6000)
        initial_world)) = []"
proof -
  have C0: "(3000::int) \<noteq> 0" by simp
  have len: "int (length (numbered_customers 6000)) = 6000"
    by (rule length_numbered_customers) simp
  have idx: "range_list 0 6000 3000 = [0, 3000]"
    by (simp add: range_list.simps)
  have len': "length (numbered_customers 6000) = 6000"
    using len by simp
  show ?thesis
    unfolding batch_insert_customers_def batch_insert_accept_all[OF C0] len idx
    by (simp add: cursor_close_def commit_def initial_world_def len')
qed

section \<open>Facts about the generators\<close>

lemma draw_counters:
  "customer_id_counter (snd (draw st)) = customer_id_counter st"
  "order_id_counter (snd (draw st)) = order_id_counter st"
  "payment_id_counter (snd (draw st)) = payment_id_counter st"
  by (simp_all add: draw_def)

lemma upto_snoc_next: "[c..c + int n - 1] @ [c + int n] = [c..c + int (Suc n) - 1]"
proof -
  have "[c..c + int n] = [c..c + int n - 1] @ [c + int n]"
    by (rule upto_rec2) simp
  then show ?thesis by (simp add: add.commute add.left_commute)
qed

lemma customers_loop_result:
  "map fst (fst (customers_loop fk n acc st))
     = map fst acc @ [customer_id_counter st..customer_id_counter st + int n - 1]
   \<and> length (fst (customers_loop fk n acc st)) = length acc + n
   \<and> customer_id_counter (snd (customers_loop fk n acc st)) = customer_id_counter st + int n
   \<and> order_id_counter (snd (customers_loop fk n acc st)) = order_id_counter st
   \<and> payment_id_counter (snd (customers_loop fk n acc st)) = payment_id_counter st"
proof (induction n arbitrary: acc st)
  case 0
  show ?case by simp
next
  case (Suc n)
  let ?c = "customer_id_counter st"
  obtain r1 st1 where d1: "draw st = (r1, st1)" by (cases "draw st")
  obtain r2 st2 where d2: "draw st1 = (r2, st2)" by (cases "draw st1")
  have c1: "customer_id_counter st1 = ?c" "order_id_counter st1 = order_id_counter st"
      "payment_id_counter st1 = payment_id_counter st"
    using draw_counters[of st] d1 by simp_all
  have c2: "customer_id_counter st2 = ?c" "order_id_counter st2 = order_id_counter st"
      "payment_id_counter st2 = payment_id_counter st"
    using draw_counters[of st1] d2 c1 by simp_all
  let ?st' = "st2\<lparr>customer_id_counter := customer_id_counter st2 + 1\<rparr>"
  let ?acc' = "acc @ [(?c, first_name fk r1, last_name fk r2)]"
  have step: "customers_loop fk (Suc n) acc st = customers_loop fk n ?acc' ?st'"
    by (simp add: d1 d2)
  have ih: "map fst (fst (customers_loop fk n ?acc' ?st'))
              = map fst ?acc' @ [customer_id_counter ?st'..customer_id_counter ?st' + int n - 1]
          \<and> length (fst (customers_loop fk n ?acc' ?st')) = length ?acc' + n
          \<and> customer_id_counter (snd (customers_loop fk n ?acc' ?st')) = customer_id_counter ?st' + int n
          \<and> order_id_counter (snd (customers_loop fk n ?acc' ?st')) = order_id_counter ?st'
          \<and> payment_id_counter (snd (customers_loop fk n ?acc' ?st')) = payment_id_counter ?st'"
    by (rule Suc.IH)
  have ids: "[?c] @ [?c + 1..?c + 1 + int n - 1] = [?c..?c + int (Suc n) - 1]"
    using upto_rec1[of ?c "?c + int (Suc n) - 1"] by (simp add: add.commute add.left_commute)
  show ?case
    unfolding step using ih ids by (simp add: c2)
qed

lemma randint_in_range:
  assumes "1 \<le> m"
  shows "\<exists>v. randint 1 m st = (Inr v, snd (draw st)) \<and> 1 \<le> v \<and> v \<le> m"
proof -
  have "0 \<le> int (rng st 0) mod m" "int (rng st 0) mod m < m"
    using assms by simp_all
  then have "1 \<le> 1 + int (rng st 0) mod m" "1 + int (rng st 0) mod m \<le> m"
    by linarith+
  then show ?thesis
    using assms by (simp add: randint_def draw_def)
qed

lemma randint_empty: "m < 1 \<Longrightarrow> randint 1 m st = (Inl ValueError, st)"
  by (simp add: randint_def)

lemma choice_nonempty: "seq \<noteq> [] \<Longrightarrow> \<exists>v. choice seq st = (Inr v, snd (draw st))"
  by (simp add: choice_def draw_def)

lemma orders_loop_step:
  assumes "1 \<le> m"
  shows "\<exists>cust dt status st'.
           orders_loop fk m (Suc n) acc st
             = orders_loop fk m n (acc @ [(order_id_counter st, cust, dt, status)]) st'
           \<and> 1 \<le> cust \<and> cust \<le> m
           \<and> order_id_counter st' = order_id_counter st + 1
           \<and> customer_id_counter st' = customer_id_counter st
           \<and> payment_id_counter st' = payment_id_counter st"
proof -
  obtain cust where r: "randint 1 m st = (Inr cust, snd (draw st))" "1 \<le> cust" "cust \<le> m"
    using randint_in_range[OF assms] by blast
  let ?st1 = "snd (draw st)"
  obtain r2 st2 where d: "draw ?st1 = (r2, st2)" by (cases "draw ?st1")
  have "order_statuses \<noteq> []" by (simp add: order_statuses_def)
  then obtain status where c: "choice order_statuses st2 = (Inr status, snd (draw st2))"
    using choice_nonempty by blast
  let ?st3 = "snd (draw st2)"
  have st2: "st2 = snd (draw ?st1)" using d by simp
  have eq: "orders_loop fk m (Suc n) acc st
          = orders_loop fk m n (acc @ [(order_id_counter st, cust, date_time_between fk r2, status)])
              (?st3\<lparr>order_id_counter := order_id_counter ?st3 + 1\<rparr>)"
    by (simp add: r d c)
  show ?thesis
    apply (rule exI[of _ cust], rule exI[of _ "date_time_between fk r2"], rule exI[of _ status])
    apply (rule exI[of _ "?st3\<lparr>order_id_counter := order_id_counter ?st3 + 1\<rparr>"])
    using eq r(2,3) by (simp add: st2 draw_counters)
qed

lemma orders_loop_ok:
  assumes "1 \<le> m"
  shows "\<exists>os st'. orders_loop fk m n acc st = (Inr os, st')
           \<and> map fst os = map fst acc @ [order_id_counter st..order_id_counter st + int n - 1]
           \<and> length os = length acc + n
           \<and> (\<forall>ord\<in>set os. ord \<in> set acc \<or> (1 \<le> fst (snd ord) \<and> fst (snd ord) \<le> m))
           \<and> order_id_counter st' = order_id_counter st + int n
           \<and> customer_id_counter st' = customer_id_counter st
           \<and> payment_id_counter st' = payment_id_counter st"
proof (induction n arbitrary: acc st)
  case 0
  show ?case by simp
next
  case (Suc n)
  obtain cust dt status st1 where
    step: "orders_loop fk m (Suc n) acc st
             = orders_loop fk m n (acc @ [(order_id_counter st, cust, dt, status)]) st1"
    and cust: "1 \<le> cust" "cust \<le> m"
    and cnt: "order_id_counter st1 = order_id_counter st + 1"
      "customer_id_counter st1 = customer_id_counter st"
      "payment_id_counter st1 = payment_id_counter st"
    using orders_loop_step[OF assms, of fk n acc st] by blast
  let ?c = "order_id_counter st"
  let ?acc' = "acc @ [(?c, cust, dt, status)]"
  obtain os st' where
    run: "orders_loop fk m n ?acc' st1 = (Inr os, st')"
    and ids: "map fst os = map fst ?acc' @ [order_id_counter st1..order_id_counter st1 + int n - 1]"
    and len: "length os = length ?acc' + n"
    and par: "\<forall>ord\<in>set os. ord \<in> set ?acc' \<or> (1 \<le> fst (snd ord) \<and> fst (snd ord) \<le> m)"
    and c': "order_id_counter st' = order_id_counter st1 + int n"
      "customer_id_counter st' = customer_id_counter st1"
      "payment_id_counter st' = payment_id_counter st1"
    using Suc.IH[of ?acc' st1] by blast
  have idl: "[?c] @ [?c + 1..?c + 1 + int n - 1] = [?c..?c + int (Suc n) - 1]"
    using upto_rec1[of ?c "?c + int (Suc n) - 1"] by (simp add: add.commute add.left_commute)
  have ids': "map fst os = map fst acc @ [?c..?c + int (Suc n) - 1]"
    using ids idl by (simp add: cnt)
  have par': "\<forall>ord\<in>set os. ord \<in> set acc \<or> (1 \<le> fst (snd ord) \<and> fst (snd ord) \<le> m)"
    using par cust by auto
  show ?case
    unfolding step run using ids' len par' c' cnt by simp
qed

lemma orders_loop_no_parent:
  "m < 1 \<Longrightarrow> orders_loop fk m (Suc n) acc st = (Inl ValueError, st)"
  by (simp add: randint_empty)

lemma random_fraction_bounds: "0 \<le> random_fraction raw \<and> random_fraction raw < 1"
proof -
  have "raw mod 2 ^ 53 < (2::nat) ^ 53" by simp
  then have "(of_nat (raw mod 2 ^ 53) :: rat) < of_nat (2 ^ 53)"
    by (simp only: of_nat_less_iff)
  then have "(of_nat (raw mod 2 ^ 53) :: rat) < 2 ^ 53" by simp
  then show ?thesis by (simp add: random_fraction_def)
qed

lemma uniform_bounds: "10 \<le> uniform 10 5000 raw \<and> uniform 10 5000 raw \<le> 5000"
proof -
  have "0 \<le> random_fraction raw" "random_fraction raw < 1"
    using random_fraction_bounds by simp_all
  then show ?thesis by (simp add: uniform_def)
qed

lemma round_half_even_bounds:
  assumes "of_int a \<le> q" and "q \<le> of_int b"
  shows "a \<le> round_half_even q \<and> round_half_even q \<le> b"
proof -
  let ?f = "\<lfloor>q\<rfloor>"
  have lo: "a \<le> ?f" using assms(1) by (simp add: le_floor_iff)
  have "of_int ?f \<le> q" by simp
  then have "(of_int ?f :: rat) \<le> of_int b" using assms(2) by (rule order_trans)
  then have hi: "?f \<le> b" by (simp only: of_int_le_iff)
  have up: "?f + 1 \<le> b" if "0 < q - of_int ?f"
  proof -
    have "of_int ?f < q" using that by simp
    then have "of_int ?f < (of_int b :: rat)" using assms(2) by linarith
    then have "?f < b" by simp
    then show ?thesis by simp
  qed
  show ?thesis
    unfolding round_half_even_def Let_def using lo hi up by auto
qed

lemma amount_hundredths:
  "\<exists>k. py_round2 (uniform 10 5000 raw) = of_int k / 100 \<and> 1000 \<le> k \<and> k \<le> 500000"
proof -
  have "of_int 1000 \<le> uniform 10 5000 raw * 100" "uniform 10 5000 raw * 100 \<le> of_int 500000"
    using uniform_bounds[of raw] by simp_all
  then have "1000 \<le> round_half_even (uniform 10 5000 raw * 100)
           \<and> round_half_even (uniform 10 5000 raw * 100) \<le> 500000"
    by (rule round_half_even_bounds)
  then show ?thesis by (auto simp: py_round2_def)
qed

lemma str_float_hundredths:
  assumes "0 \<le> k"
  shows "str_float (of_int k / 100) =
           str_int (k div 100) @ ''.'' @
           (if k mod 10 = 0 then [digit_char (nat (k mod 100 div 10))]
            else [digit_char (nat (k mod 100 div 10)), digit_char (nat (k mod 10))])"
proof -
  have nn: "\<not> (of_int k / 100 :: rat) < 0" using assms by simp
  have "\<bar>of_int k / 100 :: rat\<bar> * 100 = of_int k" using assms by simp
  then have fl: "\<lfloor>\<bar>of_int k / 100 :: rat\<bar> * 100\<rfloor> = k" by simp
  have "0 \<le> k mod 10" by simp
  then have z: "(k mod 10 \<le> 0) = (k mod 10 = 0)" by linarith
  show ?thesis
    unfolding str_float_def Let_def fl using nn by (simp add: z)
qed

lemma payments_loop_step:
  assumes "1 \<le> m"
  shows "\<exists>ord meth status k dt st'.
           payments_loop fk m (Suc n) acc st
             = payments_loop fk m n
                 (acc @ [(payment_id_counter st, ord, meth, status, of_int k / 100, dt)]) st'
           \<and> 1 \<le> ord \<and> ord \<le> m \<and> 1000 \<le> k \<and> k \<le> 500000
           \<and> payment_id_counter st' = payment_id_counter st + 1
           \<and> customer_id_counter st' = customer_id_counter st
           \<and> order_id_counter st' = order_id_counter st"
proof -
  obtain ord where r: "randint 1 m st = (Inr ord, snd (draw st))" "1 \<le> ord" "ord \<le> m"
    using randint_in_range[OF assms] by blast
  let ?st1 = "snd (draw st)"
  have "payment_methods \<noteq> []" by (simp add: payment_methods_def)
  then obtain meth where c1: "choice payment_methods ?st1 = (Inr meth, snd (draw ?st1))"
    using choice_nonempty by blast
  let ?st2 = "snd (draw ?st1)"
  have "payment_statuses \<noteq> []" by (simp add: payment_statuses_def)
  then obtain status where c2: "choice payment_statuses ?st2 = (Inr status, snd (draw ?st2))"
    using choice_nonempty by blast
  let ?st3 = "snd (draw ?st2)"
  obtain r4 st4 where d4: "draw ?st3 = (r4, st4)" by (cases "draw ?st3")
  obtain r5 st5 where d5: "draw st4 = (r5, st5)" by (cases "draw st4")
  have st4: "st4 = snd (draw ?st3)" using d4 by simp
  have st5: "st5 = snd (draw st4)" using d5 by simp
  obtain k where k: "py_round2 (uniform 10 5000 r4) = of_int k / 100" "1000 \<le> k" "k \<le> 500000"
    using amount_hundredths by blast
  have eq: "payments_loop fk m (Suc n) acc st
          = payments_loop fk m n
              (acc @ [(payment_id_counter st, ord, meth, status, of_int k / 100,
                       date_time_between fk r5)])
              (st5\<lparr>payment_id_counter := payment_id_counter st5 + 1\<rparr>)"
    by (simp add: r c1 c2 d4 d5 k(1))
  have cnt: "payment_id_counter st5 = payment_id_counter st"
    "customer_id_counter st5 = customer_id_counter st"
    "order_id_counter st5 = order_id_counter st"
    unfolding st5 st4 by (simp_all add: draw_counters)
  show ?thesis
    apply (rule exI[of _ ord], rule exI[of _ meth], rule exI[of _ status], rule exI[of _ k])
    apply (rule exI[of _ "date_time_between fk r5"])
    apply (rule exI[of _ "st5\<lparr>payment_id_counter := payment_id_counter st5 + 1\<rparr>"])
    using eq r(2,3) k(2,3) by (simp add: cnt)
qed

lemma payments_loop_ok:
  assumes "1 \<le> m"
  shows "\<exists>ps st'. payments_loop fk m n acc st = (Inr ps, st')
           \<and> map fst ps = map fst acc @ [payment_id_counter st..payment_id_counter st + int n - 1]
           \<and> length ps = length acc + n
           \<and> (\<forall>p\<in>set ps. p \<in> set acc \<or>
                 (1 \<le> fst (snd p) \<and> fst (snd p) \<le> m \<and>
                  (\<exists>k. fst (snd (snd (snd (snd p)))) = of_int k / 100 \<and> 1000 \<le> k \<and> k \<le> 500000)))
           \<and> payment_id_counter st' = payment_id_counter st + int n
           \<and> customer_id_counter st' = customer_id_counter st
           \<and> order_id_counter st' = order_id_counter st"
proof (induction n arbitrary: acc st)
  case 0
  show ?case by simp
next
  case (Suc n)
  obtain ord meth status k dt st1 where
    step: "payments_loop fk m (Suc n) acc st
             = payments_loop fk m n
                 (acc @ [(payment_id_counter st, ord, meth, status, of_int k / 100, dt)]) st1"
    and ok: "1 \<le> ord" "ord \<le> m" "1000 \<le> k" "k \<le> 500000"
    and cnt: "payment_id_counter st1 = payment_id_counter st + 1"
      "customer_id_counter st1 = customer_id_counter st"
      "order_id_counter st1 = order_id_counter st"
    using payments_loop_step[OF assms, of fk n acc st] by blast
  let ?c = "payment_id_counter st"
  let ?acc' = "acc @ [(?c, ord, meth, status, of_int k / 100, dt)]"
  obtain ps st' where
    run: "payments_loop fk m n ?acc' st1 = (Inr ps, st')"
    and ids: "map fst ps = map fst ?acc' @ [payment_id_counter st1..payment_id_counter st1 + int n - 1]"
    and len: "length ps = length ?acc' + n"
    and par: "\<forall>p\<in>set ps. p \<in> set ?acc' \<or>
                 (1 \<le> fst (snd p) \<and> fst (snd p) \<le> m \<and>
                  (\<exists>k. fst (snd (snd (snd (snd p)))) = of_int k / 100 \<and> 1000 \<le> k \<and> k \<le> 500000))"
    and c': "payment_id_counter st' = payment_id_counter st1 + int n"
      "customer_id_counter st' = customer_id_counter st1"
      "order_id_counter st' = order_id_counter st1"
    using Suc.IH[of ?acc' st1] by blast
  have idl: "[?c] @ [?c + 1..?c + 1 + int n - 1] = [?c..?c + int (Suc n) - 1]"
    using upto_rec1[of ?c "?c + int (Suc n) - 1"] by (simp add: add.commute add.left_commute)
  have ids': "map fst ps = map fst acc @ [?c..?c + int (Suc n) - 1]"
    using ids idl by (simp add: cnt)
  have par': "\<forall>p\<in>set ps. p \<in> set acc \<or>
                 (1 \<le> fst (snd p) \<and> fst (snd p) \<le> m \<and>
                  (\<exists>k. fst (snd (snd (snd (snd p)))) = of_int k / 100 \<and> 1000 \<le> k \<and> k \<le> 500000))"
  proof
    fix p assume "p \<in> set ps"
    with par have "p \<in> set ?acc' \<or>
                 (1 \<le> fst (snd p) \<and> fst (snd p) \<le> m \<and>
                  (\<exists>k. fst (snd (snd (snd (snd p)))) = of_int k / 100 \<and> 1000 \<le> k \<and> k \<le> 500000))"
      by blast
    moreover have "1 \<le> fst (snd p) \<and> fst (snd p) \<le> m \<and>
                  (\<exists>k. fst (snd (snd (snd (snd p)))) = of_int k / 100 \<and> 1000 \<le> k \<and> k \<le> 500000)"
      if "p = (?c, ord, meth, status, of_int k / 100, dt)"
      using that ok by auto
    ultimately show "p \<in> set acc \<or>
                 (1 \<le> fst (snd p) \<and> fst (snd p) \<le> m \<and>
                  (\<exists>k. fst (snd (snd (snd (snd p)))) = of_int k / 100 \<and> 1000 \<le> k \<and> k \<le> 500000))"
      by auto
  qed
  show ?case
    unfolding step run using ids' len par' c' cnt by simp
qed

lemma payments_loop_no_parent:
  "m < 1 \<Longrightarrow> payments_loop fk m (Suc n) acc st = (Inl ValueError, st)"
  by (simp add: randint_empty)

lemma generate_orders_example:
  "generate_orders example_faker 2 3 (initial_globals counting) =
     (Inr [(1, 1, example_datetime, ''shipped''), (2, 1, example_datetime, ''pending'')],
      \<lparr>customer_id_counter = 1, order_id_counter = 3, payment_id_counter = 1,
       rng = (\<lambda>n. counting (Suc (Suc (Suc (Suc (Suc (Suc n)))))))\<rparr>)"
  by (simp add: generate_orders_def initial_globals_def numeral_2_eq_2 randint_def draw_def
      choice_def order_statuses_def example_faker_def counting_def)

lemma generate_payments_example:
  "generate_payments example_faker 1 1 (initial_globals zeros) =
     (Inr [(1, 1, ''credit_card'', ''pending'', 10, example_datetime)],
      \<lparr>customer_id_counter = 1, order_id_counter = 1, payment_id_counter = 2, rng = zeros\<rparr>)"
proof -
  have z: "(\<lambda>n. 0) = zeros" by (simp add: zeros_def fun_eq_iff)
  have amt: "py_round2 (uniform 10 5000 0) = 10"
    by (simp add: py_round2_def uniform_def random_fraction_def round_half_even_def)
  show ?thesis
    by (simp add: generate_payments_def initial_globals_def randint_def draw_def zeros_def
      choice_def payment_methods_def payment_statuses_def example_faker_def amt)
       (simp add: z)
qed

lemma strftime_example: "strftime example_datetime = ''2024-03-09 07:05:01''"
  by (simp add: strftime_def example_datetime_def zero_pad_def str_int_def str_nat.simps
      digit_char_def)

lemma payment_values_example:
  "payment_values (1, 1, ''credit_card'', ''pending'', 10, example_datetime) =
     ''(1, 1, 'credit_card', 'pending', 10.0, '2024-03-09 07:05:01')''"
  by (simp add: payment_values_def strftime_example quoted_def str_float_def str_int_def
      str_nat.simps digit_char_def)


section \<open>Claims about the generators\<close>

text \<open>
  C2. A call of \<open>generate_orders\<close> with a count of at least 0 and a customer watermark of
  at least 1 returns, without error, \<open>count\<close> orders whose customer id lies between 1 and
  the watermark; likewise \<open>generate_payments\<close> with an order watermark of at least 1
  returns \<open>count\<close> payments whose order id lies between 1 and the watermark.
\<close>

theorem parent_ids_within_watermark:
  assumes "1 \<le> max_parent_id" and "0 \<le> count"
  shows "(\<exists>orders st'. generate_orders fk count max_parent_id st = (Inr orders, st')
            \<and> int (length orders) = count
            \<and> (\<forall>ord\<in>set orders. 1 \<le> fst (snd ord) \<and> fst (snd ord) \<le> max_parent_id))
       \<and> (\<exists>payments st'. generate_payments fk count max_parent_id st = (Inr payments, st')
            \<and> int (length payments) = count
            \<and> (\<forall>p\<in>set payments. 1 \<le> fst (snd p) \<and> fst (snd p) \<le> max_parent_id))"
proof
  obtain os st' where
    "orders_loop fk max_parent_id (nat count) [] st = (Inr os, st')"
    "length os = length ([] :: order list) + nat count"
    "\<forall>ord\<in>set os. ord \<in> set [] \<or> (1 \<le> fst (snd ord) \<and> fst (snd ord) \<le> max_parent_id)"
    using orders_loop_ok[OF assms(1), of fk "nat count" "[]" st] by blast
  then show "\<exists>orders st'. generate_orders fk count max_parent_id st = (Inr orders, st')
            \<and> int (length orders) = count
            \<and> (\<forall>ord\<in>set orders. 1 \<le> fst (snd ord) \<and> fst (snd ord) \<le> max_parent_id)"
    using assms(2) by (simp add: generate_orders_def)
next
  obtain ps st' where
    "payments_loop fk max_parent_id (nat count) [] st = (Inr ps, st')"
    "length ps = length ([] :: payment list) + nat count"
    "\<forall>p\<in>set ps. p \<in> set [] \<or>
       (1 \<le> fst (snd p) \<and> fst (snd p) \<le> max_parent_id \<and>
        (\<exists>k. fst (snd (snd (snd (snd p)))) = of_int k / 100 \<and> 1000 \<le> k \<and> k \<le> 500000))"
    using payments_loop_ok[OF assms(1), of fk "nat count" "[]" st] by blast
  then show "\<exists>payments st'. generate_payments fk count max_parent_id st = (Inr payments, st')
            \<and> int (length payments) = count
            \<and> (\<forall>p\<in>set payments. 1 \<le> fst (snd p) \<and> fst (snd p) \<le> max_parent_id)"
    using assms(2) by (simp add: generate_payments_def)
qed

theorem parent_ids_within_watermark_witness:
  "(1::int) \<le> 3 \<and> (0::int) \<le> 2
   \<and> fst (generate_orders example_faker 2 3 (initial_globals counting))
       = Inr [(1, 1, example_datetime, ''shipped''), (2, 1, example_datetime, ''pending'')]
   \<and> (\<exists>orders st'. generate_orders example_faker 2 3 (initial_globals counting) = (Inr orders, st')
        \<and> int (length orders) = 2
        \<and> (\<forall>ord\<in>set orders. 1 \<le> fst (snd ord) \<and> fst (snd ord) \<le> 3))
   \<and> (\<exists>payments st'. generate_payments example_faker 2 3 (initial_globals counting)
          = (Inr payments, st')
        \<and> int (length payments) = 2
        \<and> (\<forall>p\<in>set payments. 1 \<le> fst (snd p) \<and> fst (snd p) \<le> 3))"
  using parent_ids_within_watermark[of 3 2 example_faker "initial_globals counting"]
    generate_orders_example
  by simp

text \<open>
  C5, as the code has it. The generators validate nothing. A call of \<open>generate_orders\<close> or
  \<open>generate_payments\<close> with a parent watermark below 1 and a count of at least 1 fails
  with the ValueError that \<open>random.randint\<close> raises for the first row, with no row
  produced and no identifier consumed. A call of any generator with a count of 0 or less,
  negative counts included and whatever the watermark, returns the empty list without
  error and consumes no identifier.
\<close>

theorem generators_fail_only_on_first_parent_draw:
  "(max_parent_id < 1 \<and> 1 \<le> count \<longrightarrow>
      generate_orders fk count max_parent_id st = (Inl ValueError, st)
      \<and> generate_payments fk count max_parent_id st = (Inl ValueError, st))
   \<and> (count \<le> 0 \<longrightarrow>
      generate_customers fk count st = ([], st)
      \<and> generate_orders fk count max_parent_id st = (Inr [], st)
      \<and> generate_payments fk count max_parent_id st = (Inr [], st))"
proof (intro conjI impI)
  assume a: "max_parent_id < 1 \<and> 1 \<le> count"
  then obtain n where n: "nat count = Suc n" by (cases "nat count") auto
  from a have m: "max_parent_id < 1" by simp
  show "generate_orders fk count max_parent_id st = (Inl ValueError, st)"
    unfolding generate_orders_def n by (rule orders_loop_no_parent[OF m])
  show "generate_payments fk count max_parent_id st = (Inl ValueError, st)"
    unfolding generate_payments_def n by (rule payments_loop_no_parent[OF m])
next
  assume "count \<le> 0"
  then have z: "nat count = 0" by simp
  show "generate_customers fk count st = ([], st)"
    by (simp add: generate_customers_def z)
  show "generate_orders fk count max_parent_id st = (Inr [], st)"
    by (simp add: generate_orders_def z)
  show "generate_payments fk count max_parent_id st = (Inr [], st)"
    by (simp add: generate_payments_def z)
qed

theorem generators_fail_only_on_first_parent_draw_witness:
  "(0::int) < 1 \<and> (1::int) \<le> 2 \<and> (- 1 :: int) \<le> 0
   \<and> generate_orders example_faker 2 0 (initial_globals counting)
       = (Inl ValueError, initial_globals counting)
   \<and> generate_payments example_faker 2 0 (initial_globals counting)
       = (Inl ValueError, initial_globals counting)
   \<and> generate_customers example_faker (- 1) (initial_globals counting)
       = ([], initial_globals counting)"
  using generators_fail_only_on_first_parent_draw[of 0 2 example_faker "initial_globals counting"]
    generators_fail_only_on_first_parent_draw[of 0 "- 1" example_faker "initial_globals counting"]
  by simp

text \<open>
  The claim as the specification states it fails: a negative count is not rejected, and a
  watermark below 1 is not rejected when no row is asked for. Both calls return the empty
  list and leave the state as it was.
\<close>

theorem no_invalid_argument_counterexample:
  "generate_orders example_faker (- 1) 5 (initial_globals counting)
     = (Inr [], initial_globals counting)
   \<and> generate_payments example_faker 0 0 (initial_globals counting)
     = (Inr [], initial_globals counting)
   \<and> generate_customers example_faker (- 1) (initial_globals counting)
     = ([], initial_globals counting)"
  by (simp add: generate_orders_def generate_payments_def generate_customers_def)

lemma upto_extend:
  "1 \<le> c \<Longrightarrow> [1..c - 1] @ [c..c + int n - 1] = [1..c + int n - 1]"
proof (induction n)
  case 0
  then show ?case by simp
next
  case (Suc n)
  have a: "[c..c + int (Suc n) - 1] = [c..c + int n - 1] @ [c + int n]"
    by (rule upto_snoc_next[symmetric])
  have "[1..c + int n] = [1..c + int n - 1] @ [c + int n]"
    using Suc.prems by (intro upto_rec2) simp
  moreover have "c + int (Suc n) - 1 = c + int n" by simp
  ultimately show ?case using Suc a by simp
qed

lemma generate_customers_effect:
  "map fst (fst (generate_customers fk count st))
     = [customer_id_counter st..customer_id_counter st + int (nat count) - 1]
   \<and> customer_id_counter (snd (generate_customers fk count st))
       = customer_id_counter st + int (nat count)
   \<and> order_id_counter (snd (generate_customers fk count st)) = order_id_counter st
   \<and> payment_id_counter (snd (generate_customers fk count st)) = payment_id_counter st"
  using customers_loop_result[of fk "nat count" "[]" st]
  by (simp add: generate_customers_def)

lemma generate_orders_effect:
  "customer_id_counter (snd (generate_orders fk count m st)) = customer_id_counter st
   \<and> payment_id_counter (snd (generate_orders fk count m st)) = payment_id_counter st
   \<and> (case fst (generate_orders fk count m st) of
         Inl e \<Rightarrow> order_id_counter (snd (generate_orders fk count m st)) = order_id_counter st
       | Inr os \<Rightarrow>
           map fst os = [order_id_counter st..order_id_counter st + int (length os) - 1]
           \<and> order_id_counter (snd (generate_orders fk count m st))
               = order_id_counter st + int (length os))"
proof (cases "1 \<le> m")
  case True
  obtain os st' where
    "orders_loop fk m (nat count) [] st = (Inr os, st')"
    "map fst os = map fst ([] :: order list) @
        [order_id_counter st..order_id_counter st + int (nat count) - 1]"
    "length os = length ([] :: order list) + nat count"
    "order_id_counter st' = order_id_counter st + int (nat count)"
    "customer_id_counter st' = customer_id_counter st"
    "payment_id_counter st' = payment_id_counter st"
    using orders_loop_ok[OF True, of fk "nat count" "[]" st] by blast
  then show ?thesis by (simp add: generate_orders_def)
next
  case False
  then have m: "m < 1" by simp
  show ?thesis
  proof (cases "nat count")
    case 0
    show ?thesis unfolding generate_orders_def 0 by simp
  next
    case (Suc n)
    show ?thesis unfolding generate_orders_def Suc orders_loop_no_parent[OF m] by simp
  qed
qed

lemma generate_payments_effect:
  "customer_id_counter (snd (generate_payments fk count m st)) = customer_id_counter st
   \<and> order_id_counter (snd (generate_payments fk count m st)) = order_id_counter st
   \<and> (case fst (generate_payments fk count m st) of
         Inl e \<Rightarrow> payment_id_counter (snd (generate_payments fk count m st)) = payment_id_counter st
       | Inr ps \<Rightarrow>
           map fst ps = [payment_id_counter st..payment_id_counter st + int (length ps) - 1]
           \<and> payment_id_counter (snd (generate_payments fk count m st))
               = payment_id_counter st + int (length ps))"
proof (cases "1 \<le> m")
  case True
  obtain ps st' where
    "payments_loop fk m (nat count) [] st = (Inr ps, st')"
    "map fst ps = map fst ([] :: payment list) @
        [payment_id_counter st..payment_id_counter st + int (nat count) - 1]"
    "length ps = length ([] :: payment list) + nat count"
    "payment_id_counter st' = payment_id_counter st + int (nat count)"
    "customer_id_counter st' = customer_id_counter st"
    "order_id_counter st' = order_id_counter st"
    using payments_loop_ok[OF True, of fk "nat count" "[]" st] by blast
  then show ?thesis by (simp add: generate_payments_def)
next
  case False
  then have m: "m < 1" by simp
  show ?thesis
  proof (cases "nat count")
    case 0
    show ?thesis unfolding generate_payments_def 0 by simp
  next
    case (Suc n)
    show ?thesis unfolding generate_payments_def Suc payments_loop_no_parent[OF m] by simp
  qed
qed

lemma run_call_invariant:
  assumes inv: "customer_ids ids = [1..customer_id_counter st - 1]"
      "order_ids ids = [1..order_id_counter st - 1]"
      "payment_ids ids = [1..payment_id_counter st - 1]"
      "1 \<le> customer_id_counter st" "1 \<le> order_id_counter st" "1 \<le> payment_id_counter st"
    and run: "run_call fk c (ids, st) = (ids', st')"
  shows "customer_ids ids' = [1..customer_id_counter st' - 1]
       \<and> order_ids ids' = [1..order_id_counter st' - 1]
       \<and> payment_ids ids' = [1..payment_id_counter st' - 1]
       \<and> 1 \<le> customer_id_counter st' \<and> 1 \<le> order_id_counter st' \<and> 1 \<le> payment_id_counter st'"
proof (cases c)
  case (GenerateCustomers count)
  obtain cs st1 where g: "generate_customers fk count st = (cs, st1)"
    by (cases "generate_customers fk count st")
  have e: "map fst cs = [customer_id_counter st..customer_id_counter st + int (nat count) - 1]"
    "customer_id_counter st1 = customer_id_counter st + int (nat count)"
    "order_id_counter st1 = order_id_counter st"
    "payment_id_counter st1 = payment_id_counter st"
    using generate_customers_effect[of fk count st] g by simp_all
  have r: "ids' = ids\<lparr>customer_ids := customer_ids ids @ map fst cs\<rparr>" "st' = st1"
    using run GenerateCustomers g by simp_all
  show ?thesis
    unfolding r using inv e upto_extend[OF inv(4), of "nat count"] by simp
next
  case (GenerateOrders count m)
  obtain res st1 where g: "generate_orders fk count m st = (res, st1)"
    by (cases "generate_orders fk count m st")
  note eff = generate_orders_effect[of fk count m st, unfolded g, simplified]
  show ?thesis
  proof (cases res)
    case (Inl e)
    then have r: "ids' = ids" "st' = st1" using run GenerateOrders g by simp_all
    show ?thesis unfolding r using inv eff Inl by simp
  next
    case (Inr os)
    then have r: "ids' = ids\<lparr>order_ids := order_ids ids @ map fst os\<rparr>" "st' = st1"
      using run GenerateOrders g by simp_all
    define n where "n = length os"
    from eff Inr have
      n: "map fst os = [order_id_counter st..order_id_counter st + int n - 1]"
        "order_id_counter st1 = order_id_counter st + int n"
      by (simp_all add: n_def)
    show ?thesis
      unfolding r using inv eff n upto_extend[OF inv(5), of n] by simp
  qed
next
  case (GeneratePayments count m)
  obtain res st1 where g: "generate_payments fk count m st = (res, st1)"
    by (cases "generate_payments fk count m st")
  note eff = generate_payments_effect[of fk count m st, unfolded g, simplified]
  show ?thesis
  proof (cases res)
    case (Inl e)
    then have r: "ids' = ids" "st' = st1" using run GeneratePayments g by simp_all
    show ?thesis unfolding r using inv eff Inl by simp
  next
    case (Inr ps)
    then have r: "ids' = ids\<lparr>payment_ids := payment_ids ids @ map fst ps\<rparr>" "st' = st1"
      using run GeneratePayments g by simp_all
    define n where "n = length ps"
    from eff Inr have
      n: "map fst ps = [payment_id_counter st..payment_id_counter st + int n - 1]"
        "payment_id_counter st1 = payment_id_counter st + int n"
      by (simp_all add: n_def)
    show ?thesis
      unfolding r using inv eff n upto_extend[OF inv(6), of n] by simp
  qed
qed

lemma run_calls_invariant:
  assumes "customer_ids ids = [1..customer_id_counter st - 1]"
      "order_ids ids = [1..order_id_counter st - 1]"
      "payment_ids ids = [1..payment_id_counter st - 1]"
      "1 \<le> customer_id_counter st" "1 \<le> order_id_counter st" "1 \<le> payment_id_counter st"
    and "run_calls fk calls (ids, st) = (ids', st')"
  shows "customer_ids ids' = [1..customer_id_counter st' - 1]
       \<and> order_ids ids' = [1..order_id_counter st' - 1]
       \<and> payment_ids ids' = [1..payment_id_counter st' - 1]
       \<and> 1 \<le> customer_id_counter st' \<and> 1 \<le> order_id_counter st' \<and> 1 \<le> payment_id_counter st'"
  using assms
proof (induction calls arbitrary: ids st)
  case Nil
  then show ?case by (simp add: run_calls_def)
next
  case (Cons c calls)
  obtain ids1 st1 where s: "run_call fk c (ids, st) = (ids1, st1)"
    by (cases "run_call fk c (ids, st)")
  have i1: "customer_ids ids1 = [1..customer_id_counter st1 - 1]
       \<and> order_ids ids1 = [1..order_id_counter st1 - 1]
       \<and> payment_ids ids1 = [1..payment_id_counter st1 - 1]
       \<and> 1 \<le> customer_id_counter st1 \<and> 1 \<le> order_id_counter st1 \<and> 1 \<le> payment_id_counter st1"
    by (rule run_call_invariant[OF Cons.prems(1-6) s])
  have "run_calls fk calls (ids1, st1) = (ids', st')"
    using Cons.prems(7) s by (simp add: run_calls_def)
  with i1 show ?case using Cons.IH[of ids1 st1] by blast
qed

lemma strictly_increasing_upto: "sorted_wrt (<) [i..j]"
  by (simp add: strict_sorted_iff)

lemma upto_from_one:
  assumes "1 \<le> c"
  shows "int (length [1..c - 1]) = c - 1"
    and "sorted_wrt (<) [1..c - 1]"
    and "(if [1..c - 1] = [] then c - 1 = 0 else hd [1..c - 1] = 1 \<and> last [1..c - 1] = c - 1)"
proof -
  show "int (length [1..c - 1]) = c - 1" using assms by simp
  show "sorted_wrt (<) [1..c - 1]" by (rule strictly_increasing_upto)
  show "if [1..c - 1] = [] then c - 1 = 0 else hd [1..c - 1] = 1 \<and> last [1..c - 1] = c - 1"
  proof (cases "c = 1")
    case True
    then show ?thesis by simp
  next
    case False
    then have c: "1 \<le> c - 1" using assms by simp
    have h: "[1..c - 1] = 1 # [1 + 1..c - 1]" using c by (rule upto_rec1)
    have l: "[1..c - 1] = [1..c - 1 - 1] @ [c - 1]" using c by (rule upto_rec2)
    have "hd [1..c - 1] = 1" by (subst h) simp
    moreover have "last [1..c - 1] = c - 1" by (subst l) simp
    moreover have "[1..c - 1] \<noteq> []" by (subst h) simp
    ultimately show ?thesis by simp
  qed
qed

text \<open>
  C3. Over any sequence of generator calls started from the initial counters, the
  identifiers issued for each kind are exactly 1, 2, ... up to that kind's high-water
  mark: strictly increasing, without gaps, starting at 1; the high-water mark is the
  number of identifiers issued, hence the last one issued, and 0 when none was. The three
  counters are independent: a call for one kind leaves the counters of the other two
  kinds as they were.
\<close>

theorem identifiers_gap_free_and_independent:
  assumes "run_calls fk calls (no_ids, initial_globals g) = (ids, st)"
  shows "customer_ids ids = [1..customer_high_water_mark st]
       \<and> order_ids ids = [1..order_high_water_mark st]
       \<and> payment_ids ids = [1..payment_high_water_mark st]
       \<and> sorted_wrt (<) (customer_ids ids) \<and> sorted_wrt (<) (order_ids ids)
       \<and> sorted_wrt (<) (payment_ids ids)
       \<and> customer_high_water_mark st = int (length (customer_ids ids))
       \<and> order_high_water_mark st = int (length (order_ids ids))
       \<and> payment_high_water_mark st = int (length (payment_ids ids))
       \<and> (if customer_ids ids = [] then customer_high_water_mark st = 0
           else hd (customer_ids ids) = 1 \<and> last (customer_ids ids) = customer_high_water_mark st)
       \<and> (if order_ids ids = [] then order_high_water_mark st = 0
           else hd (order_ids ids) = 1 \<and> last (order_ids ids) = order_high_water_mark st)
       \<and> (if payment_ids ids = [] then payment_high_water_mark st = 0
           else hd (payment_ids ids) = 1 \<and> last (payment_ids ids) = payment_high_water_mark st)
       \<and> order_id_counter (snd (generate_customers fk count st0)) = order_id_counter st0
       \<and> payment_id_counter (snd (generate_customers fk count st0)) = payment_id_counter st0
       \<and> customer_id_counter (snd (generate_orders fk count parent st0)) = customer_id_counter st0
       \<and> payment_id_counter (snd (generate_orders fk count parent st0)) = payment_id_counter st0
       \<and> customer_id_counter (snd (generate_payments fk count parent st0)) = customer_id_counter st0
       \<and> order_id_counter (snd (generate_payments fk count parent st0)) = order_id_counter st0"
proof -
  have inv: "customer_ids ids = [1..customer_id_counter st - 1]
       \<and> order_ids ids = [1..order_id_counter st - 1]
       \<and> payment_ids ids = [1..payment_id_counter st - 1]
       \<and> 1 \<le> customer_id_counter st \<and> 1 \<le> order_id_counter st \<and> 1 \<le> payment_id_counter st"
    by (rule run_calls_invariant[OF _ _ _ _ _ _ assms])
       (simp_all add: no_ids_def initial_globals_def)
  note c = upto_from_one[of "customer_id_counter st"]
  note ord = upto_from_one[of "order_id_counter st"]
  note p = upto_from_one[of "payment_id_counter st"]
  have lists: "customer_ids ids = [1..customer_high_water_mark st]
       \<and> order_ids ids = [1..order_high_water_mark st]
       \<and> payment_ids ids = [1..payment_high_water_mark st]"
    using inv
    by (simp add: customer_high_water_mark_def order_high_water_mark_def
        payment_high_water_mark_def)
  have sorted: "sorted_wrt (<) (customer_ids ids) \<and> sorted_wrt (<) (order_ids ids)
       \<and> sorted_wrt (<) (payment_ids ids)"
    using inv by (simp add: strictly_increasing_upto)
  have lens: "customer_high_water_mark st = int (length (customer_ids ids))
       \<and> order_high_water_mark st = int (length (order_ids ids))
       \<and> payment_high_water_mark st = int (length (payment_ids ids))"
    using inv c(1) ord(1) p(1)
    by (simp add: customer_high_water_mark_def order_high_water_mark_def
        payment_high_water_mark_def)
  have e1: "if customer_ids ids = [] then customer_high_water_mark st = 0
           else hd (customer_ids ids) = 1 \<and> last (customer_ids ids) = customer_high_water_mark st"
    using inv c(3) by (simp add: customer_high_water_mark_def)
  have e2: "if order_ids ids = [] then order_high_water_mark st = 0
           else hd (order_ids ids) = 1 \<and> last (order_ids ids) = order_high_water_mark st"
    using inv ord(3) by (simp add: order_high_water_mark_def)
  have e3: "if payment_ids ids = [] then payment_high_water_mark st = 0
           else hd (payment_ids ids) = 1 \<and> last (payment_ids ids) = payment_high_water_mark st"
    using inv p(3) by (simp add: payment_high_water_mark_def)
  have g: "order_id_counter (snd (generate_customers fk count st0)) = order_id_counter st0
       \<and> payment_id_counter (snd (generate_customers fk count st0)) = payment_id_counter st0
       \<and> customer_id_counter (snd (generate_orders fk count parent st0)) = customer_id_counter st0
       \<and> payment_id_counter (snd (generate_orders fk count parent st0)) = payment_id_counter st0
       \<and> customer_id_counter (snd (generate_payments fk count parent st0)) = customer_id_counter st0
       \<and> order_id_counter (snd (generate_payments fk count parent st0)) = order_id_counter st0"
    using generate_customers_effect[of fk count st0]
      generate_orders_effect[of fk count parent st0]
      generate_payments_effect[of fk count parent st0]
    by simp
  show ?thesis
    using lists sorted lens e1 e2 e3 g
    by (elim conjE) (intro conjI; assumption)
qed

lemma zeros_const: "(\<lambda>n. 0) = zeros"
  by (simp add: zeros_def fun_eq_iff)

lemma zeros_0: "zeros 0 = 0"
  by (simp add: zeros_def)

lemma generate_customers_example:
  "generate_customers example_faker 3 (initial_globals zeros) =
     ([(1, ''Ann'', ''Lee''), (2, ''Ann'', ''Lee''), (3, ''Ann'', ''Lee'')],
      \<lparr>customer_id_counter = 4, order_id_counter = 1, payment_id_counter = 1, rng = zeros\<rparr>)"
  by (simp add: generate_customers_def initial_globals_def numeral_3_eq_3 draw_def zeros_def
      example_faker_def)
     (simp add: zeros_const)

lemma generate_orders_after_customers_example:
  "generate_orders example_faker 2 3
     \<lparr>customer_id_counter = 4, order_id_counter = 1, payment_id_counter = 1, rng = zeros\<rparr> =
     (Inr [(1, 1, example_datetime, ''pending''), (2, 1, example_datetime, ''pending'')],
      \<lparr>customer_id_counter = 4, order_id_counter = 3, payment_id_counter = 1, rng = zeros\<rparr>)"
proof -
  have a: "zeros = (\<lambda>n. 0)" by (simp add: zeros_const)
  show ?thesis
    unfolding a
    by (simp add: generate_orders_def numeral_2_eq_2 randint_def draw_def choice_def
        order_statuses_def example_faker_def)
qed

lemma run_calls_example:
  "run_calls example_faker [GenerateCustomers 3, GenerateOrders 2 3]
          (no_ids, initial_globals zeros)
     = (\<lparr>customer_ids = [1, 2, 3], order_ids = [1, 2], payment_ids = []\<rparr>,
        \<lparr>customer_id_counter = 4, order_id_counter = 3, payment_id_counter = 1, rng = zeros\<rparr>)"
  by (simp add: run_calls_def generate_customers_example
      generate_orders_after_customers_example no_ids_def)

text \<open>
  The scenario of the specification: three customers from fresh counters, then two orders
  against the watermark 3.
\<close>

theorem identifiers_gap_free_and_independent_witness:
  "run_calls example_faker [GenerateCustomers 3, GenerateOrders 2 3]
          (no_ids, initial_globals zeros)
     = (\<lparr>customer_ids = [1, 2, 3], order_ids = [1, 2], payment_ids = []\<rparr>,
        \<lparr>customer_id_counter = 4, order_id_counter = 3, payment_id_counter = 1, rng = zeros\<rparr>)
   \<and> customer_high_water_mark
        \<lparr>customer_id_counter = 4, order_id_counter = 3, payment_id_counter = 1, rng = zeros\<rparr> = 3
   \<and> order_high_water_mark
        \<lparr>customer_id_counter = 4, order_id_counter = 3, payment_id_counter = 1, rng = zeros\<rparr> = 2
   \<and> payment_high_water_mark
        \<lparr>customer_id_counter = 4, order_id_counter = 3, payment_id_counter = 1, rng = zeros\<rparr> = 0"
proof -
  let ?ids = "\<lparr>customer_ids = [1, 2, 3], order_ids = [1, 2], payment_ids = []\<rparr>"
  let ?st = "\<lparr>customer_id_counter = 4, order_id_counter = 3, payment_id_counter = 1, rng = zeros\<rparr>"
  have "customer_high_water_mark ?st = int (length (customer_ids ?ids))
      \<and> order_high_water_mark ?st = int (length (order_ids ?ids))
      \<and> payment_high_water_mark ?st = int (length (payment_ids ?ids))"
    using identifiers_gap_free_and_independent[OF run_calls_example,
        of 0 "initial_globals zeros" 0]
    by (elim conjE) (intro conjI; assumption)
  then show ?thesis
    using run_calls_example by simp
qed

section \<open>Claims about amounts and timestamps\<close>

lemma generate_payments_cases:
  assumes "generate_payments fk count m st = (Inr ps, st')" and "p \<in> set ps"
  shows "1 \<le> m"
proof (rule ccontr)
  assume "\<not> 1 \<le> m"
  then have m: "m < 1" by simp
  show False
  proof (cases "nat count")
    case 0
    then show ?thesis using assms by (simp add: generate_payments_def)
  next
    case (Suc n)
    then show ?thesis
      using assms(1) payments_loop_no_parent[OF m, of fk n "[]" st]
      by (simp add: generate_payments_def)
  qed
qed

text \<open>
  C8, as the code has it. The amount of every generated payment is a multiple of 0.01
  between 10.00 and 5000.00. It is rendered into the value literal by the default float
  formatting of an f-string, not to a fixed number of digits: with one fractional digit
  when the amount is a whole number of tenths, and with two otherwise.
\<close>

theorem payment_amount_in_range_rendered_by_repr:
  assumes "generate_payments fk count max_order_id st = (Inr payments, st')"
    and "p \<in> set payments"
  shows "10 \<le> fst (snd (snd (snd (snd p)))) \<and> fst (snd (snd (snd (snd p)))) \<le> 5000
       \<and> (\<exists>k. fst (snd (snd (snd (snd p)))) = of_int k / 100
              \<and> str_float (fst (snd (snd (snd (snd p))))) =
                  str_int (k div 100) @ ''.'' @
                  (if k mod 10 = 0 then [digit_char (nat (k mod 100 div 10))]
                   else [digit_char (nat (k mod 100 div 10)), digit_char (nat (k mod 10))]))
       \<and> payment_values p =
           ''('' @ str_int (fst p) @ '', '' @ str_int (fst (snd p)) @ '', '' @
           quoted (fst (snd (snd p))) @ '', '' @ quoted (fst (snd (snd (snd p)))) @ '', '' @
           str_float (fst (snd (snd (snd (snd p))))) @ '', '' @
           quoted (strftime (snd (snd (snd (snd (snd p)))))) @ '')''"
proof -
  let ?a = "fst (snd (snd (snd (snd p))))"
  have m: "1 \<le> max_order_id" by (rule generate_payments_cases[OF assms])
  obtain ps st1 where
    run: "payments_loop fk max_order_id (nat count) [] st = (Inr ps, st1)"
    and all: "\<forall>p\<in>set ps. p \<in> set [] \<or>
       (1 \<le> fst (snd p) \<and> fst (snd p) \<le> max_order_id \<and>
        (\<exists>k. fst (snd (snd (snd (snd p)))) = of_int k / 100 \<and> 1000 \<le> k \<and> k \<le> 500000))"
    using payments_loop_ok[OF m, of fk "nat count" "[]" st] by blast
  have "ps = payments" using run assms(1) by (simp add: generate_payments_def)
  with all assms(2) obtain k where k: "?a = of_int k / 100" "1000 \<le> k" "k \<le> 500000"
    by auto
  have lo: "10 \<le> ?a"
  proof -
    have "(of_int 1000 :: rat) \<le> of_int k" using k(2) by (simp only: of_int_le_iff)
    then show ?thesis unfolding k(1) by simp
  qed
  have hi: "?a \<le> 5000"
  proof -
    have "(of_int k :: rat) \<le> of_int 500000" using k(3) by (simp only: of_int_le_iff)
    then show ?thesis unfolding k(1) by simp
  qed
  have "0 \<le> k" using k(2) by simp
  then have r: "str_float (of_int k / 100) =
           str_int (k div 100) @ ''.'' @
           (if k mod 10 = 0 then [digit_char (nat (k mod 100 div 10))]
            else [digit_char (nat (k mod 100 div 10)), digit_char (nat (k mod 10))])"
    by (rule str_float_hundredths)
  have ex: "\<exists>k. ?a = of_int k / 100
              \<and> str_float ?a =
                  str_int (k div 100) @ ''.'' @
                  (if k mod 10 = 0 then [digit_char (nat (k mod 100 div 10))]
                   else [digit_char (nat (k mod 100 div 10)), digit_char (nat (k mod 10))])"
    unfolding k(1) using r by (intro exI[of _ k] conjI refl)
  have lit: "payment_values p =
           ''('' @ str_int (fst p) @ '', '' @ str_int (fst (snd p)) @ '', '' @
           quoted (fst (snd (snd p))) @ '', '' @ quoted (fst (snd (snd (snd p)))) @ '', '' @
           str_float ?a @ '', '' @
           quoted (strftime (snd (snd (snd (snd (snd p)))))) @ '')''"
    by (simp add: payment_values_def split_beta)
  show ?thesis using lo hi ex lit by blast
qed

theorem payment_amount_in_range_rendered_by_repr_witness:
  "generate_payments example_faker 1 1 (initial_globals zeros) =
     (Inr [(1, 1, ''credit_card'', ''pending'', 10, example_datetime)],
      \<lparr>customer_id_counter = 1, order_id_counter = 1, payment_id_counter = 2, rng = zeros\<rparr>)
   \<and> (1, 1, ''credit_card'', ''pending'', 10, example_datetime)
       \<in> set [(1, 1, ''credit_card'', ''pending'', 10 :: rat, example_datetime)]
   \<and> (10 :: rat) \<le> 10 \<and> (10 :: rat) \<le> 5000
   \<and> payment_values (1, 1, ''credit_card'', ''pending'', 10, example_datetime) =
       ''(1, 1, 'credit_card', 'pending', '' @ str_float 10 @ '', '2024-03-09 07:05:01')''"
proof -
  have mem: "(1, 1, ''credit_card'', ''pending'', 10, example_datetime)
       \<in> set [(1, 1, ''credit_card'', ''pending'', 10 :: rat, example_datetime)]"
    by simp
  show ?thesis
    using payment_amount_in_range_rendered_by_repr[OF generate_payments_example mem]
      generate_payments_example
    by (simp add: strftime_example quoted_def str_int_def str_nat.simps digit_char_def)
qed

text \<open>
  The claim as the specification states it fails in its second half: the payment
  generated when \<open>random()\<close> returns 0 has the amount 10.0, and its value literal carries
  \<open>10.0\<close>, with one fractional digit.
\<close>

theorem amount_rendered_with_one_digit_counterexample:
  "fst (generate_payments example_faker 1 1 (initial_globals zeros)) =
     Inr [(1, 1, ''credit_card'', ''pending'', 10, example_datetime)]
   \<and> str_float 10 = ''10.0''
   \<and> payment_values (1, 1, ''credit_card'', ''pending'', 10, example_datetime) =
       ''(1, 1, 'credit_card', 'pending', 10.0, '2024-03-09 07:05:01')''"
proof -
  have "str_float 10 = ''10.0''"
    by (simp add: str_float_def str_int_def str_nat.simps digit_char_def)
  then show ?thesis
    using generate_payments_example payment_values_example by simp
qed

section \<open>Claims about the scheduler\<close>

lemma insert_chunks_session:
  "opens (snd (insert_chunks fails render C rows idxs w)) = opens w
   \<and> closes (snd (insert_chunks fails render C rows idxs w)) = closes w"
proof (induction idxs arbitrary: w)
  case Nil
  show ?case by simp
next
  case (Cons i idxs)
  obtain r w1 where e: "execute fails (render (py_slice rows i (i + C))) w = (r, w1)"
    by (cases "execute fails (render (py_slice rows i (i + C))) w")
  have s1: "opens w1 = opens w \<and> closes w1 = closes w"
    using e by (auto simp: execute_def Let_def split: if_splits)
  show ?case
  proof (cases r)
    case (Inl err)
    then show ?thesis using e s1 by (simp add: Let_def)
  next
    case (Inr u)
    let ?w2 = "if (i + C) mod 5000 = 0
               then w1\<lparr>progress := progress w1 @ [(min (i + C) (int (length rows)), int (length rows))]\<rparr>
               else w1"
    have "insert_chunks fails render C rows (i # idxs) w
            = insert_chunks fails render C rows idxs ?w2"
      using e Inr by (simp add: Let_def)
    moreover have "opens ?w2 = opens w \<and> closes ?w2 = closes w" using s1 by simp
    ultimately show ?thesis using Cons.IH[of ?w2] by simp
  qed
qed

lemma batch_insert_session:
  "opens (snd (batch_insert fails render C rows w)) = opens w
   \<and> closes (snd (batch_insert fails render C rows w)) = closes w"
proof (cases "C = 0")
  case True
  then show ?thesis by (simp add: batch_insert_zero_step cursor_close_def rollback_def)
next
  case False
  let ?idxs = "range_list 0 (int (length rows)) C"
  obtain r w1 where i: "insert_chunks fails render C rows ?idxs w = (r, w1)"
    by (cases "insert_chunks fails render C rows ?idxs w")
  have "opens w1 = opens w \<and> closes w1 = closes w"
    using insert_chunks_session[of fails render C rows ?idxs w] i by simp
  then show ?thesis
    using False i
    by (cases r) (simp_all add: batch_insert_def py_range_def cursor_close_def rollback_def commit_def)
qed

lemma run_loop_session:
  "run_loop rounds cfg env b st w = Some (e, b', st', w')
   \<Longrightarrow> opens w' = opens w \<and> closes w' = closes w"
proof (induction rounds arbitrary: b st w)
  case 0
  then show ?case by simp
next
  case (Suc rounds)
  obtain cs st1 where g1: "generate_customers (fake env) (batch_size cfg) st = (cs, st1)"
    by (cases "generate_customers (fake env) (batch_size cfg) st")
  obtain r2 st2 where
    g2: "generate_orders (fake env) (batch_size cfg) (customer_id_counter st1 - 1) st1 = (r2, st2)"
    by (cases "generate_orders (fake env) (batch_size cfg) (customer_id_counter st1 - 1) st1")
  show ?case
  proof (cases r2)
    case (Inl err)
    then show ?thesis using Suc.prems g1 g2 by (simp add: Let_def)
  next
    case os: (Inr os)
    obtain r3 st3 where
      g3: "generate_payments (fake env) (batch_size cfg) (order_id_counter st2 - 1) st2 = (r3, st3)"
      by (cases "generate_payments (fake env) (batch_size cfg) (order_id_counter st2 - 1) st2")
    show ?thesis
    proof (cases r3)
      case (Inl err)
      then show ?thesis using Suc.prems g1 g2 os g3 by (simp add: Let_def)
    next
      case ps: (Inr ps)
      obtain r4 w1 where
        i1: "batch_insert_customers (store_fails env) (chunk_size cfg) cs w = (r4, w1)"
        by (cases "batch_insert_customers (store_fails env) (chunk_size cfg) cs w")
      have s1: "opens w1 = opens w \<and> closes w1 = closes w"
        using batch_insert_session[of "store_fails env" customers_sql "chunk_size cfg" cs w] i1
        by (simp add: batch_insert_customers_def)
      show ?thesis
      proof (cases r4)
        case (Inl err)
        then show ?thesis using Suc.prems g1 g2 os g3 ps i1 s1 by (simp add: Let_def)
      next
        case u1: (Inr u1)
        obtain r5 w2 where
          i2: "batch_insert_orders (store_fails env) (chunk_size cfg) os w1 = (r5, w2)"
          by (cases "batch_insert_orders (store_fails env) (chunk_size cfg) os w1")
        have s2: "opens w2 = opens w \<and> closes w2 = closes w"
          using batch_insert_session[of "store_fails env" orders_sql "chunk_size cfg" os w1] i2 s1
          by (simp add: batch_insert_orders_def)
        show ?thesis
        proof (cases r5)
          case (Inl err)
          then show ?thesis using Suc.prems g1 g2 os g3 ps i1 u1 i2 s2 by (simp add: Let_def)
        next
          case u2: (Inr u2)
          obtain r6 w3 where
            i3: "batch_insert_payments (store_fails env) (chunk_size cfg) ps w2 = (r6, w3)"
            by (cases "batch_insert_payments (store_fails env) (chunk_size cfg) ps w2")
          have s3: "opens w3 = opens w \<and> closes w3 = closes w"
            using batch_insert_session[of "store_fails env" payments_sql "chunk_size cfg" ps w2]
              i3 s2
            by (simp add: batch_insert_payments_def)
          show ?thesis
          proof (cases r6)
            case (Inl err)
            then show ?thesis
              using Suc.prems g1 g2 os g3 ps i1 u1 i2 u2 i3 s3 by (simp add: Let_def)
          next
            case u3: (Inr u3)
            have step: "run_loop (Suc rounds) cfg env b st w =
                (if elapsed_time env (nat (b + 1)) = 0
                 then Some (ZeroDivisionError, b + 1, st3, w3)
                 else if batch_interval cfg < 0 then Some (ValueError, b + 1, st3, w3)
                 else if interrupted env (nat (b + 1))
                 then Some (KeyboardInterrupt, b + 1, st3, w3)
                 else run_loop rounds cfg env (b + 1) st3 w3)"
              using g1 g2 os g3 ps i1 u1 i2 u2 i3 u3 by (simp add: Let_def)
            show ?thesis
            proof (cases "elapsed_time env (nat (b + 1)) = 0 \<or> batch_interval cfg < 0
                          \<or> interrupted env (nat (b + 1))")
              case True
              then have "w' = w3" using Suc.prems step by (auto split: if_splits)
              then show ?thesis using s3 by simp
            next
              case False
              then have "run_loop rounds cfg env (b + 1) st3 w3 = Some (e, b', st', w')"
                using Suc.prems step by simp
              then have "opens w' = opens w3 \<and> closes w' = closes w3" by (rule Suc.IH)
              then show ?thesis using s3 by simp
            qed
          qed
        qed
      qed
    qed
  qed
qed

lemma create_tables_session:
  "opens (snd (create_tables_if_not_exist fails w)) = opens w
   \<and> closes (snd (create_tables_if_not_exist fails w)) = closes w"
  by (simp add: create_tables_if_not_exist_def execute_def Let_def cursor_close_def commit_def)

text \<open>
  Once the table check has succeeded, every way out of the run closes the connection
  exactly once: the \<open>finally\<close> clause covers the loop.
\<close>

lemma session_released_after_table_check:
  assumes "create_connection env w = (Inr (), w0)"
    and "fst (create_tables_if_not_exist (store_fails env) w0) = Inr ()"
    and "run_generator rounds cfg env st w = Some (r, st', w')"
  shows "opens w' = Suc (opens w) \<and> closes w' = Suc (closes w)"
proof -
  obtain w1 where t: "create_tables_if_not_exist (store_fails env) w0 = (Inr (), w1)"
    using assms(2) by (cases "create_tables_if_not_exist (store_fails env) w0") simp
  have s0: "opens w0 = Suc (opens w) \<and> closes w0 = closes w"
    using assms(1) by (auto simp: create_connection_def split: option.splits)
  have s1: "opens w1 = opens w0 \<and> closes w1 = closes w0"
    using create_tables_session[of "store_fails env" w0] t by simp
  obtain e b st2 w2 where l: "run_loop rounds cfg env 0 st w1 = Some (e, b, st2, w2)"
    and w': "w' = close w2"
    using assms(3) assms(1) t
    by (auto simp: run_generator_def split: option.splits if_splits)
  have "opens w2 = opens w1 \<and> closes w2 = closes w1" using l by (rule run_loop_session)
  then show ?thesis using s0 s1 w' by (simp add: close_def)
qed

text \<open>
  C6. The run should close the store session exactly once on every way out. It does not
  when the table check at startup fails: \<open>create_tables_if_not_exist\<close> is called before
  the \<open>try\<close> whose \<open>finally\<close> closes the connection. With a store that rejects the first
  statement of the table check, the run ends with the error, one connection opened and
  \<open>conn.close()\<close> never called.
\<close>

theorem session_not_released_when_table_check_fails:
  "run_generator rounds default_config table_check_fails (initial_globals zeros) initial_world =
     Some (Inl StoreError, initial_globals zeros,
           initial_world\<lparr>opens := 1, attempted := [create_customers_table],
                         cursors_closed := 1\<rparr>)
   \<and> opens (initial_world\<lparr>opens := 1, attempted := [create_customers_table],
                          cursors_closed := 1\<rparr>) = 1
   \<and> closes (initial_world\<lparr>opens := 1, attempted := [create_customers_table],
                           cursors_closed := 1\<rparr>) = 0"
  by (simp add: run_generator_def create_connection_def table_check_fails_def
      create_tables_if_not_exist_def execute_def reject_first_def cursor_close_def
      initial_world_def Let_def)

section \<open>Facts about rendering and reading numbers\<close>





















section \<open>The round trip of a timestamp\<close>





end
